theory Spec2Isabelle
  imports Main "HOL-Library.Word" "HOL-Library.Monad_Syntax"
begin

section \<open>Data model of script-fu-script.c\<close>

text \<open>
  The argument type tag \<open>SFArgType\<close>. The enumerators are the case labels of the
  switches in script-fu-script.c; the header that numbers them is not part of the sources,
  so wherever the code uses an enumerator as an integer the numbering is a parameter.
\<close>

datatype SFArgType =
    SF_IMAGE | SF_DRAWABLE | SF_LAYER | SF_CHANNEL | SF_VECTORS | SF_DISPLAY
  | SF_COLOR | SF_TOGGLE | SF_VALUE | SF_STRING | SF_TEXT | SF_ADJUSTMENT
  | SF_FILENAME | SF_DIRNAME | SF_FONT | SF_PALETTE | SF_PATTERN | SF_BRUSH
  | SF_GRADIENT | SF_OPTION | SF_ENUM

text \<open>
  A finite \<open>gdouble\<close>: sign, integer significand and binary exponent, standing for
  \<open>(-1)^sign * significand * 2^exponent\<close>. Infinities and NaN are not modelled.
\<close>

datatype gdouble = Gdouble (d_neg: bool) (d_mant: nat) (d_exp: int)

text \<open>
  Modelled from the spec: \<open>GimpRGB\<close> and \<open>gimp_rgb_get_uchar\<close> (libgimpcolor, not among
  the sources). The spec gives a Color payload as an RGB triple that is rendered as three
  integers 0-255; the model keeps the three \<open>guchar\<close> components.
\<close>

record GimpRGB =
  rgb_r :: "8 word"
  rgb_g :: "8 word"
  rgb_b :: "8 word"

definition gimp_rgb_get_uchar :: "GimpRGB \<Rightarrow> 8 word \<times> 8 word \<times> 8 word" where
  "gimp_rgb_get_uchar c = (rgb_r c, rgb_g c, rgb_b c)"

text \<open>
  The structs inside the \<open>SFArgValue\<close> union, with the fields script-fu-script.c reads
  or writes. \<open>SFAdjustment\<close> also carries the bounds and step the spec mentions, which
  no function of this file touches.
\<close>

record SFAdjustment =
  adj_value :: gdouble
  adj_lower :: gdouble
  adj_upper :: gdouble
  adj_step :: gdouble

record SFFilename =
  filename :: string

record SFBrush =
  brush_name :: string
  brush_opacity :: gdouble
  brush_spacing :: int
  brush_paint_mode :: int

record SFOption =
  option_list :: "string list"
  option_history :: int

record SFEnum =
  enum_type_name :: string
  enum_history :: int

text \<open>
  The union \<open>SFArgValue\<close>, one constructor per member. The six identity members
  (\<open>sfa_image\<close>, \<open>sfa_drawable\<close>, \<open>sfa_layer\<close>, \<open>sfa_channel\<close>, \<open>sfa_vectors\<close>,
  \<open>sfa_display\<close>) are one constructor: they are \<open>gint32\<close>s at the same address, and the
  code relies on it (reset and get_command read \<open>sfa_image\<close> for all six, param_init
  writes each under its own name). Text members hold their text (a non-NULL \<open>gchar *\<close>).
\<close>

datatype SFArgValue =
    SFA_id int
  | SFA_color GimpRGB
  | SFA_toggle bool
  | SFA_value string
  | SFA_adjustment SFAdjustment
  | SFA_file SFFilename
  | SFA_font string
  | SFA_palette string
  | SFA_pattern string
  | SFA_gradient string
  | SFA_brush SFBrush
  | SFA_option SFOption
  | SFA_enum SFEnum

text \<open>
  Reading a union member is defined only when that member is the one stored: the
  accessors return \<open>None\<close> otherwise.
\<close>

fun sfa_image :: "SFArgValue \<Rightarrow> int option" where
  "sfa_image (SFA_id i) = Some i"
| "sfa_image _ = None"

fun sfa_color :: "SFArgValue \<Rightarrow> GimpRGB option" where
  "sfa_color (SFA_color c) = Some c"
| "sfa_color _ = None"

fun sfa_toggle :: "SFArgValue \<Rightarrow> bool option" where
  "sfa_toggle (SFA_toggle b) = Some b"
| "sfa_toggle _ = None"

fun sfa_value :: "SFArgValue \<Rightarrow> string option" where
  "sfa_value (SFA_value t) = Some t"
| "sfa_value _ = None"

fun sfa_adjustment :: "SFArgValue \<Rightarrow> SFAdjustment option" where
  "sfa_adjustment (SFA_adjustment a) = Some a"
| "sfa_adjustment _ = None"

fun sfa_file :: "SFArgValue \<Rightarrow> SFFilename option" where
  "sfa_file (SFA_file f) = Some f"
| "sfa_file _ = None"

fun sfa_font :: "SFArgValue \<Rightarrow> string option" where
  "sfa_font (SFA_font t) = Some t"
| "sfa_font _ = None"

fun sfa_palette :: "SFArgValue \<Rightarrow> string option" where
  "sfa_palette (SFA_palette t) = Some t"
| "sfa_palette _ = None"

fun sfa_pattern :: "SFArgValue \<Rightarrow> string option" where
  "sfa_pattern (SFA_pattern t) = Some t"
| "sfa_pattern _ = None"

fun sfa_gradient :: "SFArgValue \<Rightarrow> string option" where
  "sfa_gradient (SFA_gradient t) = Some t"
| "sfa_gradient _ = None"

fun sfa_brush :: "SFArgValue \<Rightarrow> SFBrush option" where
  "sfa_brush (SFA_brush b) = Some b"
| "sfa_brush _ = None"

fun sfa_option :: "SFArgValue \<Rightarrow> SFOption option" where
  "sfa_option (SFA_option x) = Some x"
| "sfa_option _ = None"

fun sfa_enum :: "SFArgValue \<Rightarrow> SFEnum option" where
  "sfa_enum (SFA_enum x) = Some x"
| "sfa_enum _ = None"

record SFArg =
  a_type :: SFArgType
  a_label :: string
  a_default_value :: SFArgValue
  a_value :: SFArgValue

text \<open>
  \<open>SFScript\<close>. The array \<open>args\<close> with its length \<open>n_args\<close> is a list;
  \<open>script_fu_script_new\<close> allocates exactly \<open>n_args\<close> elements.
\<close>

record SFScript =
  s_name :: string
  s_menu_label :: string
  s_blurb :: string
  s_author :: string
  s_copyright :: string
  s_date :: string
  s_image_types :: string
  s_args :: "SFArg list"

definition n_args :: "SFScript \<Rightarrow> nat" where
  "n_args script = length (s_args script)"

text \<open>
  The values of an invocation (\<open>GimpValueArray\<close> of \<open>GValue\<close>). An object value has
  the type it was initialised with and the object it holds, given by its id
  (\<open>None\<close> for a NULL object).

  Modelled from the spec: the \<open>GIMP_VALUE_HOLDS_*\<close> macros and the \<open>gimp_*_get_id\<close>
  getters (libgimp, not among the sources). The spec asks for an invocation value
  "runtime-typed as expected" and renders an absent object as \<open>-1\<close>.
\<close>

datatype GType =
    GIMP_TYPE_IMAGE | GIMP_TYPE_DRAWABLE | GIMP_TYPE_LAYER | GIMP_TYPE_CHANNEL
  | GIMP_TYPE_VECTORS | GIMP_TYPE_DISPLAY

datatype GValue =
    GV_object GType "int option"
  | GV_rgb GimpRGB
  | GV_boolean bool
  | GV_string string
  | GV_double gdouble
  | GV_int int
  | GV_enum int

fun value_holds :: "GType \<Rightarrow> GValue \<Rightarrow> bool" where
  "value_holds t (GV_object t' _) = (t' = t)"
| "value_holds t _ = False"

fun g_value_get_object :: "GValue \<Rightarrow> int option" where
  "g_value_get_object (GV_object _ obj) = obj"
| "g_value_get_object _ = None"

fun gimp_get_id :: "int option \<Rightarrow> int" where
  "gimp_get_id None = -1"
| "gimp_get_id (Some i) = i"

section \<open>The standard-argument extractor\<close>

text \<open>\<open>arg->value.sfa_image = id\<close> on \<open>arg = &script->args[n]\<close>.\<close>

definition set_arg_id :: "SFScript \<Rightarrow> nat \<Rightarrow> int \<Rightarrow> SFScript" where
  "set_arg_id script n i =
     script\<lparr>s_args := (s_args script)[n := (s_args script ! n)\<lparr>a_value := SFA_id i\<rparr>]\<rparr>"

text \<open>
  \<open>script_fu_script_param_init\<close>: the updated script and the returned \<open>gboolean\<close>.
  \<open>args ! (n + 1)\<close> is read only under the length test, as in the source.
\<close>

definition holds_then_init ::
  "SFScript \<Rightarrow> GValue \<Rightarrow> GType \<Rightarrow> nat \<Rightarrow> SFScript \<times> bool" where
  "holds_then_init script v t n =
     (if value_holds t v
      then (set_arg_id script n (gimp_get_id (g_value_get_object v)), True)
      else (script, False))"

definition script_fu_script_param_init ::
  "SFScript \<Rightarrow> GValue list \<Rightarrow> SFArgType \<Rightarrow> nat \<Rightarrow> SFScript \<times> bool" where
  "script_fu_script_param_init script args type n =
     (if n_args script > n \<and> a_type (s_args script ! n) = type \<and> length args > n + 1
      then
        (let v = args ! (n + 1) in
         case type of
           SF_IMAGE \<Rightarrow> holds_then_init script v GIMP_TYPE_IMAGE n
         | SF_DRAWABLE \<Rightarrow> holds_then_init script v GIMP_TYPE_DRAWABLE n
         | SF_LAYER \<Rightarrow> holds_then_init script v GIMP_TYPE_LAYER n
         | SF_CHANNEL \<Rightarrow> holds_then_init script v GIMP_TYPE_CHANNEL n
         | SF_VECTORS \<Rightarrow> holds_then_init script v GIMP_TYPE_VECTORS n
         | SF_DISPLAY \<Rightarrow> holds_then_init script v GIMP_TYPE_DISPLAY n
         | _ \<Rightarrow> (script, False))
      else (script, False))"

text \<open>
  \<open>script_fu_script_collect_standard_args\<close>: the updated script and
  \<open>params_consumed\<close>. The \<open>||\<close> chain stops at the first call that returns TRUE.
\<close>

definition script_fu_script_collect_standard_args ::
  "SFScript \<Rightarrow> GValue list \<Rightarrow> SFScript \<times> nat" where
  "script_fu_script_collect_standard_args script args =
     (let params_consumed = 0;
          (script, r) = script_fu_script_param_init script args SF_DISPLAY params_consumed;
          params_consumed = (if r then params_consumed + 1 else params_consumed);
          (script, r) = script_fu_script_param_init script args SF_IMAGE params_consumed
      in if r then
           (let params_consumed = params_consumed + 1;
                (script, r) = script_fu_script_param_init script args SF_DRAWABLE params_consumed;
                (script, r) = (if r then (script, r)
                               else script_fu_script_param_init script args SF_LAYER params_consumed);
                (script, r) = (if r then (script, r)
                               else script_fu_script_param_init script args SF_CHANNEL params_consumed);
                (script, r) = (if r then (script, r)
                               else script_fu_script_param_init script args SF_VECTORS params_consumed)
            in (script, if r then params_consumed + 1 else params_consumed))
         else (script, params_consumed))"

text \<open>
  The extractor as the spec words it (section 4.3). A probe at schema position \<open>n\<close>
  for a type succeeds when the schema has a slot \<open>n\<close> of exactly that type and the
  invocation has a value for it (position \<open>n + 1\<close>, after the run mode) that is
  runtime-typed as expected. Display is probed at position 0, Image at the next
  unconsumed position, and only after an Image match one of Drawable, Layer, Channel,
  Vectors at the position after it. Each match binds the value's id to the slot.
\<close>

fun identity_gtype :: "SFArgType \<Rightarrow> GType option" where
  "identity_gtype SF_IMAGE = Some GIMP_TYPE_IMAGE"
| "identity_gtype SF_DRAWABLE = Some GIMP_TYPE_DRAWABLE"
| "identity_gtype SF_LAYER = Some GIMP_TYPE_LAYER"
| "identity_gtype SF_CHANNEL = Some GIMP_TYPE_CHANNEL"
| "identity_gtype SF_VECTORS = Some GIMP_TYPE_VECTORS"
| "identity_gtype SF_DISPLAY = Some GIMP_TYPE_DISPLAY"
| "identity_gtype _ = None"

definition slot_matches :: "SFScript \<Rightarrow> GValue list \<Rightarrow> SFArgType \<Rightarrow> nat \<Rightarrow> bool" where
  "slot_matches script args t n =
     (n < length (s_args script) \<and> a_type (s_args script ! n) = t \<and>
      n + 1 < length args \<and>
      (case identity_gtype t of None \<Rightarrow> False | Some g \<Rightarrow> value_holds g (args ! (n + 1))))"

definition bind_id :: "SFScript \<Rightarrow> GValue list \<Rightarrow> nat \<Rightarrow> SFScript" where
  "bind_id script args n =
     set_arg_id script n (gimp_get_id (g_value_get_object (args ! (n + 1))))"

definition extract_leading :: "SFScript \<Rightarrow> GValue list \<Rightarrow> SFScript \<times> nat" where
  "extract_leading script args =
     (let d = slot_matches script args SF_DISPLAY 0;
          p = (if d then 1 else 0);
          i = slot_matches script args SF_IMAGE p;
          q = p + 1;
          m = (i \<and> (slot_matches script args SF_DRAWABLE q \<or> slot_matches script args SF_LAYER q \<or>
                     slot_matches script args SF_CHANNEL q \<or> slot_matches script args SF_VECTORS q));
          s1 = (if d then bind_id script args 0 else script);
          s2 = (if i then bind_id s1 args p else s1);
          s3 = (if m then bind_id s2 args q else s2)
      in (s3, (if d then 1 else 0) + (if i then 1 else 0) + (if m then 1 else 0)))"

text \<open>
  The scenario of the spec: schema [Display, Image, Drawable, Adjustment]. An invocation
  starts with the run mode; the values the spec lists follow it.
\<close>

definition one_and_a_half :: gdouble where
  "one_and_a_half = Gdouble False 3 (- 1)"

definition scenario_adjustment :: SFAdjustment where
  "scenario_adjustment =
     \<lparr>adj_value = one_and_a_half, adj_lower = Gdouble False 0 0,
      adj_upper = Gdouble False 10 0, adj_step = Gdouble False 1 0\<rparr>"

definition scenario_script :: SFScript where
  "scenario_script =
     \<lparr>s_name = ''script-fu-scenario'', s_menu_label = ''Scenario'', s_blurb = [],
      s_author = [], s_copyright = [], s_date = [], s_image_types = ''*'',
      s_args =
        [\<lparr>a_type = SF_DISPLAY, a_label = ''Display'',
          a_default_value = SFA_id (- 1), a_value = SFA_id (- 1)\<rparr>,
         \<lparr>a_type = SF_IMAGE, a_label = ''Image'',
          a_default_value = SFA_id (- 1), a_value = SFA_id (- 1)\<rparr>,
         \<lparr>a_type = SF_DRAWABLE, a_label = ''Drawable'',
          a_default_value = SFA_id (- 1), a_value = SFA_id (- 1)\<rparr>,
         \<lparr>a_type = SF_ADJUSTMENT, a_label = ''Amount'',
          a_default_value = SFA_adjustment scenario_adjustment,
          a_value = SFA_adjustment scenario_adjustment\<rparr>]\<rparr>"

definition scenario_full_invocation :: "GValue list" where
  "scenario_full_invocation =
     [GV_enum 0, GV_object GIMP_TYPE_DISPLAY (Some 42), GV_object GIMP_TYPE_IMAGE (Some 7),
      GV_object GIMP_TYPE_DRAWABLE (Some 3), GV_double one_and_a_half]"

definition scenario_no_display_invocation :: "GValue list" where
  "scenario_no_display_invocation =
     [GV_enum 0, GV_object GIMP_TYPE_IMAGE (Some 7),
      GV_object GIMP_TYPE_DRAWABLE (Some 3), GV_double one_and_a_half]"

section \<open>The defaults resetter\<close>

text \<open>
  The body of the loop of \<open>script_fu_script_reset\<close> for one argument. Each branch is
  the source's assignment; a member that is read (also by \<open>g_free\<close>) or whose field is
  assigned has to be the member stored.
\<close>

definition reset_arg :: "bool \<Rightarrow> SFArg \<Rightarrow> SFArg option" where
  "reset_arg reset_ids arg =
     (let v = a_value arg; dv = a_default_value arg;
          ids = (if reset_ids
                 then do { d \<leftarrow> sfa_image dv; Some (arg\<lparr>a_value := SFA_id d\<rparr>) }
                 else Some arg);
          text = do { _ \<leftarrow> sfa_value v; d \<leftarrow> sfa_value dv;
                      Some (arg\<lparr>a_value := SFA_value d\<rparr>) };
          file = do { f \<leftarrow> sfa_file v; d \<leftarrow> sfa_file dv;
                      Some (arg\<lparr>a_value := SFA_file (f\<lparr>filename := filename d\<rparr>)\<rparr>) }
      in case a_type arg of
           SF_IMAGE \<Rightarrow> ids
         | SF_DRAWABLE \<Rightarrow> ids
         | SF_LAYER \<Rightarrow> ids
         | SF_CHANNEL \<Rightarrow> ids
         | SF_VECTORS \<Rightarrow> ids
         | SF_DISPLAY \<Rightarrow> ids
         | SF_COLOR \<Rightarrow> do { d \<leftarrow> sfa_color dv; Some (arg\<lparr>a_value := SFA_color d\<rparr>) }
         | SF_TOGGLE \<Rightarrow> do { d \<leftarrow> sfa_toggle dv; Some (arg\<lparr>a_value := SFA_toggle d\<rparr>) }
         | SF_VALUE \<Rightarrow> text
         | SF_STRING \<Rightarrow> text
         | SF_TEXT \<Rightarrow> text
         | SF_ADJUSTMENT \<Rightarrow>
             do { a \<leftarrow> sfa_adjustment v; d \<leftarrow> sfa_adjustment dv;
                  Some (arg\<lparr>a_value := SFA_adjustment (a\<lparr>adj_value := adj_value d\<rparr>)\<rparr>) }
         | SF_FILENAME \<Rightarrow> file
         | SF_DIRNAME \<Rightarrow> file
         | SF_FONT \<Rightarrow>
             do { _ \<leftarrow> sfa_font v; d \<leftarrow> sfa_font dv; Some (arg\<lparr>a_value := SFA_font d\<rparr>) }
         | SF_PALETTE \<Rightarrow>
             do { _ \<leftarrow> sfa_palette v; d \<leftarrow> sfa_palette dv;
                  Some (arg\<lparr>a_value := SFA_palette d\<rparr>) }
         | SF_PATTERN \<Rightarrow>
             do { _ \<leftarrow> sfa_pattern v; d \<leftarrow> sfa_pattern dv;
                  Some (arg\<lparr>a_value := SFA_pattern d\<rparr>) }
         | SF_GRADIENT \<Rightarrow>
             do { _ \<leftarrow> sfa_gradient v; d \<leftarrow> sfa_gradient dv;
                  Some (arg\<lparr>a_value := SFA_gradient d\<rparr>) }
         | SF_BRUSH \<Rightarrow>
             do { b \<leftarrow> sfa_brush v; d \<leftarrow> sfa_brush dv;
                  Some (arg\<lparr>a_value := SFA_brush
                    (b\<lparr>brush_name := brush_name d, brush_opacity := brush_opacity d,
                       brush_spacing := brush_spacing d,
                       brush_paint_mode := brush_paint_mode d\<rparr>)\<rparr>) }
         | SF_OPTION \<Rightarrow>
             do { x \<leftarrow> sfa_option v; d \<leftarrow> sfa_option dv;
                  Some (arg\<lparr>a_value := SFA_option (x\<lparr>option_history := option_history d\<rparr>)\<rparr>) }
         | SF_ENUM \<Rightarrow>
             do { x \<leftarrow> sfa_enum v; d \<leftarrow> sfa_enum dv;
                  Some (arg\<lparr>a_value := SFA_enum (x\<lparr>enum_history := enum_history d\<rparr>)\<rparr>) })"

text \<open>The loop \<open>for (i = 0; i < script->n_args; i++)\<close>, from index \<open>i\<close> on.\<close>

function reset_loop :: "bool \<Rightarrow> nat \<Rightarrow> SFScript \<Rightarrow> SFScript option" where
  "reset_loop reset_ids i script =
     (if i < n_args script
      then (case reset_arg reset_ids (s_args script ! i) of
              None \<Rightarrow> None
            | Some a \<Rightarrow> reset_loop reset_ids (Suc i) (script\<lparr>s_args := (s_args script)[i := a]\<rparr>))
      else Some script)"
  by pat_completeness auto
termination
  by (relation "measure (\<lambda>(reset_ids, i, script). n_args script - i)") (auto simp: n_args_def)

declare reset_loop.simps [simp del]

definition script_fu_script_reset :: "SFScript \<Rightarrow> bool \<Rightarrow> SFScript option" where
  "script_fu_script_reset script reset_ids = reset_loop reset_ids 0 script"

text \<open>Resets one after the other, one flag per call.\<close>

fun reset_sequence :: "SFScript \<Rightarrow> bool list \<Rightarrow> SFScript option" where
  "reset_sequence script [] = Some script"
| "reset_sequence script (f # fs) =
     (case script_fu_script_reset script f of
        None \<Rightarrow> None
      | Some script' \<Rightarrow> reset_sequence script' fs)"

text \<open>
  The invariant of the data model (spec, section 3): the default and the current value
  of an argument are stored in the union member of the argument's type.
\<close>

fun stores_member :: "SFArgType \<Rightarrow> SFArgValue \<Rightarrow> bool" where
  "stores_member SF_IMAGE v = (sfa_image v \<noteq> None)"
| "stores_member SF_DRAWABLE v = (sfa_image v \<noteq> None)"
| "stores_member SF_LAYER v = (sfa_image v \<noteq> None)"
| "stores_member SF_CHANNEL v = (sfa_image v \<noteq> None)"
| "stores_member SF_VECTORS v = (sfa_image v \<noteq> None)"
| "stores_member SF_DISPLAY v = (sfa_image v \<noteq> None)"
| "stores_member SF_COLOR v = (sfa_color v \<noteq> None)"
| "stores_member SF_TOGGLE v = (sfa_toggle v \<noteq> None)"
| "stores_member SF_VALUE v = (sfa_value v \<noteq> None)"
| "stores_member SF_STRING v = (sfa_value v \<noteq> None)"
| "stores_member SF_TEXT v = (sfa_value v \<noteq> None)"
| "stores_member SF_ADJUSTMENT v = (sfa_adjustment v \<noteq> None)"
| "stores_member SF_FILENAME v = (sfa_file v \<noteq> None)"
| "stores_member SF_DIRNAME v = (sfa_file v \<noteq> None)"
| "stores_member SF_FONT v = (sfa_font v \<noteq> None)"
| "stores_member SF_PALETTE v = (sfa_palette v \<noteq> None)"
| "stores_member SF_PATTERN v = (sfa_pattern v \<noteq> None)"
| "stores_member SF_GRADIENT v = (sfa_gradient v \<noteq> None)"
| "stores_member SF_BRUSH v = (sfa_brush v \<noteq> None)"
| "stores_member SF_OPTION v = (sfa_option v \<noteq> None)"
| "stores_member SF_ENUM v = (sfa_enum v \<noteq> None)"

definition wf_arg :: "SFArg \<Rightarrow> bool" where
  "wf_arg arg = (stores_member (a_type arg) (a_default_value arg) \<and>
                 stores_member (a_type arg) (a_value arg))"

definition wf_script :: "SFScript \<Rightarrow> bool" where
  "wf_script script = list_all wf_arg (s_args script)"

text \<open>
  What the spec calls restoring an argument (section 4.5), over the payloads of its data
  model (section 3): the payload of an Adjustment is its magnitude, that of an Option or
  an Enum is the selected index; every other payload is the whole stored member.
\<close>

fun is_identity :: "SFArgType \<Rightarrow> bool" where
  "is_identity SF_IMAGE = True"
| "is_identity SF_DRAWABLE = True"
| "is_identity SF_LAYER = True"
| "is_identity SF_CHANNEL = True"
| "is_identity SF_VECTORS = True"
| "is_identity SF_DISPLAY = True"
| "is_identity _ = False"

definition same_payload :: "SFArgValue \<Rightarrow> SFArgValue \<Rightarrow> bool" where
  "same_payload v w =
     (case v of
        SFA_adjustment a \<Rightarrow> map_option adj_value (sfa_adjustment w) = Some (adj_value a)
      | SFA_option x \<Rightarrow> map_option option_history (sfa_option w) = Some (option_history x)
      | SFA_enum x \<Rightarrow> map_option enum_history (sfa_enum w) = Some (enum_history x)
      | _ \<Rightarrow> v = w)"

definition restored :: "bool \<Rightarrow> SFArg \<Rightarrow> SFArg \<Rightarrow> bool" where
  "restored reset_identity_values arg arg' =
     (if is_identity (a_type arg)
      then a_value arg' = (if reset_identity_values then a_default_value arg else a_value arg)
      else same_payload (a_value arg') (a_default_value arg))"

text \<open>A script after an invocation: every current value differs from its default.\<close>

definition three_and_a_half :: gdouble where
  "three_and_a_half = Gdouble False 7 (- 1)"

definition used_script :: SFScript where
  "used_script =
     \<lparr>s_name = ''script-fu-used'', s_menu_label = ''Used'', s_blurb = [],
      s_author = [], s_copyright = [], s_date = [], s_image_types = ''*'',
      s_args =
        [\<lparr>a_type = SF_IMAGE, a_label = ''Image'',
          a_default_value = SFA_id (- 1), a_value = SFA_id 7\<rparr>,
         \<lparr>a_type = SF_TOGGLE, a_label = ''Flatten'',
          a_default_value = SFA_toggle True, a_value = SFA_toggle False\<rparr>,
         \<lparr>a_type = SF_STRING, a_label = ''Text'',
          a_default_value = SFA_value ''hello'', a_value = SFA_value ''bye''\<rparr>,
         \<lparr>a_type = SF_ADJUSTMENT, a_label = ''Amount'',
          a_default_value = SFA_adjustment scenario_adjustment,
          a_value = SFA_adjustment (scenario_adjustment\<lparr>adj_value := three_and_a_half\<rparr>)\<rparr>,
         \<lparr>a_type = SF_OPTION, a_label = ''Mode'',
          a_default_value = SFA_option \<lparr>option_list = [''A'', ''B''], option_history = 0\<rparr>,
          a_value = SFA_option \<lparr>option_list = [], option_history = 1\<rparr>\<rparr>]\<rparr>"

section \<open>Text formatting\<close>

text \<open>The conversion \<open>%d\<close> of printf on a \<open>gint\<close>.\<close>

definition digit_char :: "nat \<Rightarrow> char" where
  "digit_char n = ''0123456789'' ! n"

fun string_of_nat :: "nat \<Rightarrow> string" where
  "string_of_nat n =
     (if n < 10 then [digit_char n] else string_of_nat (n div 10) @ [digit_char (n mod 10)])"

declare string_of_nat.simps [simp del]

definition printf_d :: "int \<Rightarrow> string" where
  "printf_d i = (if i < 0 then CHR ''-'' # string_of_nat (nat (- i)) else string_of_nat (nat i))"

text \<open>
  \<open>g_ascii_dtostr\<close> belongs to GLib, not to this repository. GLib defines it as
  \<open>g_ascii_formatd\<close> with the format \<open>%.17g\<close>: the conversion \<open>%g\<close> of C with precision
  \<open>P = 17\<close>, always with \<open>.\<close> as the decimal point, whatever the locale. C defines \<open>%g\<close> so:
  the value is rounded to \<open>P\<close> significant digits; with \<open>X\<close> the decimal exponent of the
  rounded value, style \<open>f\<close> is used when \<open>P > X \<ge> -4\<close> and style \<open>e\<close> otherwise; trailing
  zeros of the fraction are removed, and the decimal point with them when no fraction is
  left. The exponent of style \<open>e\<close> has a sign and at least two digits. The value of the
  double is the exact rational \<open>num / den\<close>; rounding is to nearest, ties to even.
\<close>

definition round_div :: "nat \<Rightarrow> nat \<Rightarrow> nat" where
  "round_div a b =
     (let q = a div b; r = a mod b
      in if 2 * r < b then q else if b < 2 * r then q + 1 else if even q then q else q + 1)"

text \<open>The least \<open>k\<close> from \<open>k\<close> on with \<open>den \<le> num * 10 ^ k\<close>.\<close>

function first_scale :: "nat \<Rightarrow> nat \<Rightarrow> nat \<Rightarrow> nat" where
  "first_scale num den k =
     (if num = 0 \<or> den \<le> num * 10 ^ k then k else first_scale num den (Suc k))"
  by pat_completeness auto
termination
proof (relation "measure (\<lambda>(num, den, k). den - num * 10 ^ k)")
  show "wf (measure (\<lambda>(num, den, k). den - num * 10 ^ k))" by simp
next
  fix num den k :: nat
  assume a: "\<not> (num = 0 \<or> den \<le> num * 10 ^ k)"
  define y where "y = num * 10 ^ k"
  from a have "0 < y" and "y < den" by (simp_all add: y_def)
  moreover have "num * 10 ^ Suc k = 10 * y" by (simp add: y_def)
  ultimately have "den - num * 10 ^ Suc k < den - y" by arith
  then show "((num, den, Suc k), (num, den, k)) \<in> measure (\<lambda>(num, den, k). den - num * 10 ^ k)"
    by (simp add: y_def)
qed

declare first_scale.simps [simp del]

text \<open>The decimal exponent of \<open>num / den > 0\<close>: the \<open>x\<close> with \<open>10 ^ x \<le> num / den < 10 ^ (x + 1)\<close>.\<close>

definition decimal_exponent :: "nat \<Rightarrow> nat \<Rightarrow> int" where
  "decimal_exponent num den =
     (if den \<le> num then int (length (string_of_nat (num div den))) - 1
      else - int (first_scale num den 1))"

text \<open>\<open>num / den\<close> in units of \<open>10 ^ (x - 16)\<close>, rounded: 17 digits when \<open>x\<close> is the exponent.\<close>

definition scaled17 :: "nat \<Rightarrow> nat \<Rightarrow> int \<Rightarrow> nat" where
  "scaled17 num den x =
     (if x \<le> 16 then round_div (num * 10 ^ nat (16 - x)) den
      else round_div num (den * 10 ^ nat (x - 16)))"

definition strip_trailing_zeros :: "string \<Rightarrow> string" where
  "strip_trailing_zeros s = rev (dropWhile (\<lambda>c. c = CHR ''0'') (rev s))"

definition fraction_part :: "string \<Rightarrow> string" where
  "fraction_part ds =
     (let frac = strip_trailing_zeros ds in if frac = [] then [] else CHR ''.'' # frac)"

definition exponent_part :: "int \<Rightarrow> string" where
  "exponent_part x =
     ''e'' @ (if x < 0 then ''-'' else ''+'') @
     (if \<bar>x\<bar> < 10 then ''0'' else []) @ string_of_nat (nat \<bar>x\<bar>)"

definition format_g17 :: "nat \<Rightarrow> nat \<Rightarrow> string" where
  "format_g17 num den =
     (let x0 = decimal_exponent num den;
          n0 = scaled17 num den x0;
          n = (if n0 = 10 ^ 17 then 10 ^ 16 else n0);
          x = (if n0 = 10 ^ 17 then x0 + 1 else x0);
          ds = string_of_nat n
      in if x < - 4 \<or> 17 \<le> x
         then take 1 ds @ fraction_part (drop 1 ds) @ exponent_part x
         else if 0 \<le> x
         then take (nat x + 1) ds @ fraction_part (drop (nat x + 1) ds)
         else ''0.'' @ replicate (nat (- x - 1)) (CHR ''0'') @ strip_trailing_zeros ds)"

fun g_ascii_dtostr :: "gdouble \<Rightarrow> string" where
  "g_ascii_dtostr (Gdouble neg m e) =
     (if neg then ''-'' else []) @
     (if m = 0 then ''0''
      else if 0 \<le> e then format_g17 (m * 2 ^ nat e) 1
      else format_g17 m (2 ^ nat (- e)))"

declare g_ascii_dtostr.simps [simp del]

text \<open>
  Modelled from the spec: \<open>script_fu_strescape\<close> (script-fu-utils.c, not among the
  sources). The spec: "double-quoted with backslash/quote escaping applied" and
  "String-escaping is total": a backslash is put before every backslash and every
  double quote.
\<close>

abbreviation DQUOTE :: char where
  "DQUOTE \<equiv> CHR 0x22"

abbreviation BACKSLASH :: char where
  "BACKSLASH \<equiv> CHR 0x5C"

fun script_fu_strescape :: "string \<Rightarrow> string" where
  "script_fu_strescape [] = []"
| "script_fu_strescape (c # cs) =
     (if c = BACKSLASH \<or> c = DQUOTE then [BACKSLASH, c] else [c]) @ script_fu_strescape cs"

text \<open>The printf format \<open>"%s"\<close> with its double quotes.\<close>

definition quoted :: "string \<Rightarrow> string" where
  "quoted t = [DQUOTE] @ t @ [DQUOTE]"

section \<open>The value serializer\<close>

text \<open>The format \<open>'(%d %d %d)\<close> on the three components of a colour.\<close>

definition color_token :: "GimpRGB \<Rightarrow> string" where
  "color_token c =
     (case gimp_rgb_get_uchar c of
        (r, g, b) \<Rightarrow>
          [CHR 0x27] @ ''('' @ printf_d (uint r) @ '' '' @ printf_d (uint g) @ '' '' @
          printf_d (uint b) @ '')'')"

text \<open>
  The switch of \<open>script_fu_script_get_command\<close>: the text appended for one argument,
  read from its current value.
\<close>

definition command_token :: "SFArg \<Rightarrow> string option" where
  "command_token arg =
     (let arg_value = a_value arg;
          ident = do { i \<leftarrow> sfa_image arg_value; Some (printf_d i) };
          text = do { t \<leftarrow> sfa_value arg_value; Some (quoted (script_fu_strescape t)) };
          file = do { f \<leftarrow> sfa_file arg_value; Some (quoted (script_fu_strescape (filename f))) }
      in case a_type arg of
           SF_IMAGE \<Rightarrow> ident
         | SF_DRAWABLE \<Rightarrow> ident
         | SF_LAYER \<Rightarrow> ident
         | SF_CHANNEL \<Rightarrow> ident
         | SF_VECTORS \<Rightarrow> ident
         | SF_DISPLAY \<Rightarrow> ident
         | SF_COLOR \<Rightarrow> do { c \<leftarrow> sfa_color arg_value; Some (color_token c) }
         | SF_TOGGLE \<Rightarrow>
             do { b \<leftarrow> sfa_toggle arg_value; Some (if b then ''TRUE'' else ''FALSE'') }
         | SF_VALUE \<Rightarrow> sfa_value arg_value
         | SF_STRING \<Rightarrow> text
         | SF_TEXT \<Rightarrow> text
         | SF_ADJUSTMENT \<Rightarrow>
             do { a \<leftarrow> sfa_adjustment arg_value; Some (g_ascii_dtostr (adj_value a)) }
         | SF_FILENAME \<Rightarrow> file
         | SF_DIRNAME \<Rightarrow> file
         | SF_FONT \<Rightarrow> do { t \<leftarrow> sfa_font arg_value; Some (quoted t) }
         | SF_PALETTE \<Rightarrow> do { t \<leftarrow> sfa_palette arg_value; Some (quoted t) }
         | SF_PATTERN \<Rightarrow> do { t \<leftarrow> sfa_pattern arg_value; Some (quoted t) }
         | SF_GRADIENT \<Rightarrow> do { t \<leftarrow> sfa_gradient arg_value; Some (quoted t) }
         | SF_BRUSH \<Rightarrow>
             do { b \<leftarrow> sfa_brush arg_value;
                  Some ([CHR 0x27] @ ''('' @ quoted (brush_name b) @ '' '' @
                        g_ascii_dtostr (brush_opacity b) @ '' '' @
                        printf_d (brush_spacing b) @ '' '' @
                        printf_d (brush_paint_mode b) @ '')'') }
         | SF_OPTION \<Rightarrow> do { x \<leftarrow> sfa_option arg_value; Some (printf_d (option_history x)) }
         | SF_ENUM \<Rightarrow> do { x \<leftarrow> sfa_enum arg_value; Some (printf_d (enum_history x)) })"

text \<open>
  The loop of \<open>script_fu_script_get_command\<close> from index \<open>i\<close> on, \<open>s\<close> the
  \<open>GString\<close> built so far: a space, then the argument's text.
\<close>

function get_command_loop :: "SFScript \<Rightarrow> nat \<Rightarrow> string \<Rightarrow> string option" where
  "get_command_loop script i s =
     (if i < n_args script
      then (case command_token (s_args script ! i) of
              None \<Rightarrow> None
            | Some t \<Rightarrow> get_command_loop script (Suc i) (s @ '' '' @ t))
      else Some s)"
  by pat_completeness auto
termination
  by (relation "measure (\<lambda>(script, i, s). n_args script - i)") auto

declare get_command_loop.simps [simp del]

definition script_fu_script_get_command :: "SFScript \<Rightarrow> string option" where
  "script_fu_script_get_command script =
     (case get_command_loop script 0 (''('' @ s_name script) of
        None \<Rightarrow> None
      | Some s \<Rightarrow> Some (s @ '')''))"

text \<open>
  The getters of \<open>GValue\<close> used by \<open>script_fu_script_get_command_from_params\<close>. A
  getter is defined on a value of its own type.
\<close>

fun g_value_get_boolean :: "GValue \<Rightarrow> bool option" where
  "g_value_get_boolean (GV_boolean b) = Some b"
| "g_value_get_boolean _ = None"

fun g_value_get_string :: "GValue \<Rightarrow> string option" where
  "g_value_get_string (GV_string t) = Some t"
| "g_value_get_string _ = None"

fun g_value_get_double :: "GValue \<Rightarrow> gdouble option" where
  "g_value_get_double (GV_double d) = Some d"
| "g_value_get_double _ = None"

fun g_value_get_int :: "GValue \<Rightarrow> int option" where
  "g_value_get_int (GV_int i) = Some i"
| "g_value_get_int _ = None"

fun gimp_value_get_rgb :: "GValue \<Rightarrow> GimpRGB option" where
  "gimp_value_get_rgb (GV_rgb c) = Some c"
| "gimp_value_get_rgb _ = None"

text \<open>
  \<open>object = g_value_get_object (value); id = -1; if (object) g_object_get (object, "id", ...)\<close>
  on an object value.
\<close>

fun object_id_token :: "GValue \<Rightarrow> string option" where
  "object_id_token (GV_object _ obj) =
     Some (printf_d (case obj of None \<Rightarrow> - 1 | Some i \<Rightarrow> i))"
| "object_id_token _ = None"

text \<open>
  The switch of \<open>script_fu_script_get_command_from_params\<close>: the text appended for an
  argument of the given type, read from the invocation's value.
\<close>

definition param_token :: "SFArgType \<Rightarrow> GValue \<Rightarrow> string option" where
  "param_token type v =
     (let ident = object_id_token v;
          text = do { t \<leftarrow> g_value_get_string v; Some (quoted (script_fu_strescape t)) };
          name = do { t \<leftarrow> g_value_get_string v; Some (quoted t) };
          index = do { i \<leftarrow> g_value_get_int v; Some (printf_d i) }
      in case type of
           SF_IMAGE \<Rightarrow> ident
         | SF_DRAWABLE \<Rightarrow> ident
         | SF_LAYER \<Rightarrow> ident
         | SF_CHANNEL \<Rightarrow> ident
         | SF_VECTORS \<Rightarrow> ident
         | SF_DISPLAY \<Rightarrow> ident
         | SF_COLOR \<Rightarrow> do { c \<leftarrow> gimp_value_get_rgb v; Some (color_token c) }
         | SF_TOGGLE \<Rightarrow>
             do { b \<leftarrow> g_value_get_boolean v; Some (if b then ''TRUE'' else ''FALSE'') }
         | SF_VALUE \<Rightarrow> g_value_get_string v
         | SF_STRING \<Rightarrow> text
         | SF_TEXT \<Rightarrow> text
         | SF_FILENAME \<Rightarrow> text
         | SF_DIRNAME \<Rightarrow> text
         | SF_ADJUSTMENT \<Rightarrow> do { d \<leftarrow> g_value_get_double v; Some (g_ascii_dtostr d) }
         | SF_FONT \<Rightarrow> name
         | SF_PALETTE \<Rightarrow> name
         | SF_PATTERN \<Rightarrow> name
         | SF_GRADIENT \<Rightarrow> name
         | SF_BRUSH \<Rightarrow> name
         | SF_OPTION \<Rightarrow> index
         | SF_ENUM \<Rightarrow> index)"

text \<open>
  The loop of \<open>script_fu_script_get_command_from_params\<close>;
  \<open>gimp_value_array_index (args, i + 1)\<close> has a value when the array is long enough.
\<close>

function get_command_from_params_loop ::
  "SFScript \<Rightarrow> GValue list \<Rightarrow> nat \<Rightarrow> string \<Rightarrow> string option" where
  "get_command_from_params_loop script args i s =
     (if i < n_args script
      then (if i + 1 < length args
            then (case param_token (a_type (s_args script ! i)) (args ! (i + 1)) of
                    None \<Rightarrow> None
                  | Some t \<Rightarrow> get_command_from_params_loop script args (Suc i) (s @ '' '' @ t))
            else None)
      else Some s)"
  by pat_completeness auto
termination
  by (relation "measure (\<lambda>(script, args, i, s). n_args script - i)") auto

declare get_command_from_params_loop.simps [simp del]

definition script_fu_script_get_command_from_params ::
  "SFScript \<Rightarrow> GValue list \<Rightarrow> string option" where
  "script_fu_script_get_command_from_params script args =
     (case get_command_from_params_loop script args 0 (''('' @ s_name script) of
        None \<Rightarrow> None
      | Some s \<Rightarrow> Some (s @ '')''))"

text \<open>The script of the spec's round trip, every current value equal to its default.\<close>

definition test_blur :: SFScript where
  "test_blur =
     \<lparr>s_name = ''test-blur'', s_menu_label = ''Test Blur'', s_blurb = [],
      s_author = [], s_copyright = [], s_date = [], s_image_types = ''*'',
      s_args =
        [\<lparr>a_type = SF_ADJUSTMENT, a_label = ''Radius'',
          a_default_value = SFA_adjustment (scenario_adjustment\<lparr>adj_value := three_and_a_half\<rparr>),
          a_value = SFA_adjustment (scenario_adjustment\<lparr>adj_value := three_and_a_half\<rparr>)\<rparr>,
         \<lparr>a_type = SF_TOGGLE, a_label = ''Flatten'',
          a_default_value = SFA_toggle True, a_value = SFA_toggle True\<rparr>,
         \<lparr>a_type = SF_STRING, a_label = ''Text'',
          a_default_value = SFA_value ''hello'', a_value = SFA_value ''hello''\<rparr>]\<rparr>"

section \<open>The procedure descriptor builder\<close>

text \<open>
  Modelled from the spec: \<open>GimpProcedure\<close>, \<open>GParamSpec\<close> and the libgimp and GObject
  calls that fill them (not among the sources). The spec's procedure metadata
  (section 6): an ordered parameter list, each entry with machine name, nickname,
  documentation label and host parameter type; a menu label or none; documentation and
  attribution. Each call of the source sets the field it is named after.
\<close>

datatype GimpPDBProcType = GIMP_PDB_PROC_TYPE_PLUGIN | GIMP_PDB_PROC_TYPE_TEMPORARY

datatype ParamType =
    PT_run_mode | PT_image | PT_drawable | PT_layer | PT_channel | PT_vectors | PT_display
  | PT_rgb | PT_boolean | PT_string | PT_string_no_validate | PT_double | PT_int

record GParamSpec =
  ps_name :: string
  ps_nick :: string
  ps_blurb :: string
  ps_type :: ParamType

record GimpProcedure =
  proc_name :: string
  proc_type :: GimpPDBProcType
  proc_image_types :: string
  proc_menu_label :: "string option"
  proc_blurb :: string
  proc_help_id :: string
  proc_authors :: string
  proc_copyright :: string
  proc_date :: string
  proc_args :: "GParamSpec list"

definition gimp_procedure_new :: "string \<Rightarrow> GimpPDBProcType \<Rightarrow> GimpProcedure" where
  "gimp_procedure_new name t =
     \<lparr>proc_name = name, proc_type = t, proc_image_types = [], proc_menu_label = None,
      proc_blurb = [], proc_help_id = [], proc_authors = [], proc_copyright = [],
      proc_date = [], proc_args = []\<rparr>"

definition gimp_procedure_add_argument :: "GimpProcedure \<Rightarrow> GParamSpec \<Rightarrow> GimpProcedure" where
  "gimp_procedure_add_argument procedure pspec =
     procedure\<lparr>proc_args := proc_args procedure @ [pspec]\<rparr>"

text \<open>
  \<open>strncmp\<close> of the C library on NUL-terminated texts: the sign of the first difference
  within the first \<open>n\<close> characters, the end of a text counting as the character 0.
\<close>

fun strncmp :: "string \<Rightarrow> string \<Rightarrow> nat \<Rightarrow> int" where
  "strncmp s t 0 = 0"
| "strncmp [] [] (Suc n) = 0"
| "strncmp [] (y # ys) (Suc n) = - int (of_char y)"
| "strncmp (x # xs) [] (Suc n) = int (of_char x)"
| "strncmp (x # xs) (y # ys) (Suc n) =
     (if x = y then strncmp xs ys n else int (of_char x) - int (of_char y))"

text \<open>\<open>g_strlcpy\<close> and \<open>g_snprintf\<close> into a buffer of \<open>n\<close> bytes keep \<open>n - 1\<close> characters.\<close>

definition g_strlcpy :: "nat \<Rightarrow> string \<Rightarrow> string" where
  "g_strlcpy dest_size src = take (dest_size - 1) src"

definition g_snprintf :: "nat \<Rightarrow> string \<Rightarrow> string" where
  "g_snprintf n formatted = take (n - 1) formatted"

text \<open>The first switch of the loop: \<open>name\<close> and \<open>nick\<close> of a type.\<close>

fun pdb_name_nick :: "SFArgType \<Rightarrow> string \<times> string" where
  "pdb_name_nick SF_IMAGE = (''image'', ''Image'')"
| "pdb_name_nick SF_DRAWABLE = (''drawable'', ''Drawable'')"
| "pdb_name_nick SF_LAYER = (''layer'', ''Layer'')"
| "pdb_name_nick SF_CHANNEL = (''channel'', ''Channel'')"
| "pdb_name_nick SF_VECTORS = (''vectors'', ''Vectors'')"
| "pdb_name_nick SF_DISPLAY = (''display'', ''Display'')"
| "pdb_name_nick SF_COLOR = (''color'', ''Color'')"
| "pdb_name_nick SF_TOGGLE = (''toggle'', ''Toggle'')"
| "pdb_name_nick SF_VALUE = (''value'', ''Value'')"
| "pdb_name_nick SF_STRING = (''string'', ''String'')"
| "pdb_name_nick SF_TEXT = (''text'', ''Text'')"
| "pdb_name_nick SF_ADJUSTMENT = (''adjustment'', ''Adjustment'')"
| "pdb_name_nick SF_FILENAME = (''filename'', ''Filename'')"
| "pdb_name_nick SF_DIRNAME = (''dirname'', ''Dirname'')"
| "pdb_name_nick SF_FONT = (''font'', ''Font'')"
| "pdb_name_nick SF_PALETTE = (''palette'', ''Palette'')"
| "pdb_name_nick SF_PATTERN = (''pattern'', ''Pattern'')"
| "pdb_name_nick SF_BRUSH = (''brush'', ''Brush'')"
| "pdb_name_nick SF_GRADIENT = (''gradient'', ''Gradient'')"
| "pdb_name_nick SF_OPTION = (''option'', ''Option'')"
| "pdb_name_nick SF_ENUM = (''enum'', ''Enum'')"

text \<open>The second switch of the loop: the kind of \<open>GParamSpec\<close> built for a type.\<close>

fun pdb_param_type :: "SFArgType \<Rightarrow> ParamType" where
  "pdb_param_type SF_IMAGE = PT_image"
| "pdb_param_type SF_DRAWABLE = PT_drawable"
| "pdb_param_type SF_LAYER = PT_layer"
| "pdb_param_type SF_CHANNEL = PT_channel"
| "pdb_param_type SF_VECTORS = PT_vectors"
| "pdb_param_type SF_DISPLAY = PT_display"
| "pdb_param_type SF_COLOR = PT_rgb"
| "pdb_param_type SF_TOGGLE = PT_boolean"
| "pdb_param_type SF_VALUE = PT_string"
| "pdb_param_type SF_STRING = PT_string"
| "pdb_param_type SF_TEXT = PT_string"
| "pdb_param_type SF_ADJUSTMENT = PT_double"
| "pdb_param_type SF_FILENAME = PT_string_no_validate"
| "pdb_param_type SF_DIRNAME = PT_string_no_validate"
| "pdb_param_type SF_FONT = PT_string"
| "pdb_param_type SF_PALETTE = PT_string"
| "pdb_param_type SF_PATTERN = PT_string"
| "pdb_param_type SF_BRUSH = PT_string"
| "pdb_param_type SF_GRADIENT = PT_string"
| "pdb_param_type SF_OPTION = PT_int"
| "pdb_param_type SF_ENUM = PT_int"

text \<open>
  What one iteration builds for an argument when the counter of its type stands at
  \<open>c\<close>: the bare name and nickname at 0, the numbered ones otherwise, into buffers of
  64 bytes; then the \<open>GParamSpec\<close> with the argument's label as its blurb.
\<close>

definition numbered_name :: "int \<Rightarrow> string \<Rightarrow> string" where
  "numbered_name c name =
     (if c = 0 then g_strlcpy 64 name else g_snprintf 64 (name @ ''-'' @ printf_d (c + 1)))"

definition numbered_nick :: "int \<Rightarrow> string \<Rightarrow> string" where
  "numbered_nick c nick =
     (if c = 0 then g_strlcpy 64 nick else g_snprintf 64 (nick @ '' '' @ printf_d (c + 1)))"

definition argument_pspec :: "int \<Rightarrow> SFArg \<Rightarrow> GParamSpec" where
  "argument_pspec c arg =
     \<lparr>ps_name = numbered_name c (fst (pdb_name_nick (a_type arg))),
      ps_nick = numbered_nick c (snd (pdb_name_nick (a_type arg))),
      ps_blurb = a_label arg,
      ps_type = pdb_param_type (a_type arg)\<rparr>"

text \<open>
  The loop of \<open>script_fu_script_create_PDB_procedure\<close> from index \<open>i\<close> on.
  \<open>arg_count\<close> is the local array \<open>gint arg_count[SF_DISPLAY]\<close>, indexed by the integer of
  the argument's type; \<open>num\<close> is the numbering of the enumerators (the header that fixes
  it is not among the sources). An index outside the array is an error of its own: C
  leaves the access undefined.
\<close>

datatype pdb_error = ArgCountOutOfBounds

function add_script_arguments ::
  "(SFArgType \<Rightarrow> nat) \<Rightarrow> SFScript \<Rightarrow> nat \<Rightarrow> int list \<Rightarrow> GimpProcedure
     \<Rightarrow> pdb_error + GimpProcedure" where
  "add_script_arguments num script i arg_count procedure =
     (if i < n_args script
      then
        (let arg = s_args script ! i; t = num (a_type arg)
         in if t < length arg_count
            then add_script_arguments num script (Suc i)
                   (arg_count[t := arg_count ! t + 1])
                   (gimp_procedure_add_argument procedure (argument_pspec (arg_count ! t) arg))
            else Inl ArgCountOutOfBounds)
      else Inr procedure)"
  by pat_completeness auto
termination
  by (relation "measure (\<lambda>(num, script, i, arg_count, procedure). n_args script - i)") auto

declare add_script_arguments.simps [simp del]

definition script_fu_script_create_PDB_procedure ::
  "(SFArgType \<Rightarrow> nat) \<Rightarrow> SFScript \<Rightarrow> GimpPDBProcType \<Rightarrow> pdb_error + GimpProcedure" where
  "script_fu_script_create_PDB_procedure num script plug_in_type =
     (let menu_label =
            (if strncmp (s_menu_label script) ''<None>'' 6 \<noteq> 0
             then Some (s_menu_label script) else None);
          arg_count = replicate (num SF_DISPLAY) 0;
          procedure = gimp_procedure_new (s_name script) plug_in_type;
          procedure = procedure\<lparr>proc_image_types := s_image_types script\<rparr>;
          procedure =
            (case menu_label of
               None \<Rightarrow> procedure
             | Some l \<Rightarrow> if length l \<noteq> 0 then procedure\<lparr>proc_menu_label := Some l\<rparr>
                         else procedure);
          procedure = procedure\<lparr>proc_blurb := s_blurb script, proc_help_id := s_name script\<rparr>;
          procedure = procedure\<lparr>proc_authors := s_author script,
                        proc_copyright := s_copyright script, proc_date := s_date script\<rparr>;
          procedure = gimp_procedure_add_argument procedure
                        \<lparr>ps_name = ''run-mode'', ps_nick = ''Run mode'',
                         ps_blurb = ''The run mode'', ps_type = PT_run_mode\<rparr>
      in add_script_arguments num script 0 arg_count procedure)"

text \<open>
  The numbering of script-fu-enums.h as GIMP ships it, \<open>SF_IMAGE = 0\<close> up to
  \<open>SF_DISPLAY = 20\<close>; it is one instance of the parameter \<open>num\<close>, used for examples.
\<close>

fun header_numbering :: "SFArgType \<Rightarrow> nat" where
  "header_numbering SF_IMAGE = 0"
| "header_numbering SF_DRAWABLE = 1"
| "header_numbering SF_LAYER = 2"
| "header_numbering SF_CHANNEL = 3"
| "header_numbering SF_VECTORS = 4"
| "header_numbering SF_COLOR = 5"
| "header_numbering SF_TOGGLE = 6"
| "header_numbering SF_VALUE = 7"
| "header_numbering SF_STRING = 8"
| "header_numbering SF_ADJUSTMENT = 9"
| "header_numbering SF_FONT = 10"
| "header_numbering SF_PATTERN = 11"
| "header_numbering SF_BRUSH = 12"
| "header_numbering SF_GRADIENT = 13"
| "header_numbering SF_FILENAME = 14"
| "header_numbering SF_DIRNAME = 15"
| "header_numbering SF_OPTION = 16"
| "header_numbering SF_PALETTE = 17"
| "header_numbering SF_TEXT = 18"
| "header_numbering SF_ENUM = 19"
| "header_numbering SF_DISPLAY = 20"

definition plain_arg :: "SFArgType \<Rightarrow> string \<Rightarrow> SFArg" where
  "plain_arg t l = \<lparr>a_type = t, a_label = l, a_default_value = SFA_id (- 1), a_value = SFA_id (- 1)\<rparr>"

definition script_with_args :: "string \<Rightarrow> SFArg list \<Rightarrow> SFScript" where
  "script_with_args menu as =
     \<lparr>s_name = ''script-fu-sample'', s_menu_label = menu, s_blurb = ''Sample'',
      s_author = ''A'', s_copyright = ''C'', s_date = ''2020'', s_image_types = ''*'',
      s_args = as\<rparr>"

definition three_images :: SFScript where
  "three_images =
     script_with_args ''Three''
       [plain_arg SF_IMAGE ''First'', plain_arg SF_IMAGE ''Second'', plain_arg SF_IMAGE ''Third'']"

definition one_display :: SFScript where
  "one_display = script_with_args ''Display'' [plain_arg SF_DISPLAY ''The display'']"

section \<open>The title of a script\<close>

text \<open>
  Modelled from the spec: \<open>gimp_strip_uline\<close> (libgimpbase, not among the sources). The
  spec: "strip mnemonic markers from the menu label"; the mnemonic marker of a menu
  label is the underscore.
\<close>

definition gimp_strip_uline :: "string \<Rightarrow> string" where
  "gimp_strip_uline str = filter (\<lambda>c. c \<noteq> CHR ''_'') str"

text \<open>
  \<open>strrchr\<close> and \<open>strstr\<close> of the C library, as the index of the last occurrence of a
  character and of the first occurrence of a text; \<open>None\<close> is the NULL result.
\<close>

fun strrchr :: "string \<Rightarrow> char \<Rightarrow> nat option" where
  "strrchr [] c = None"
| "strrchr (x # xs) c =
     (case strrchr xs c of
        Some i \<Rightarrow> Some (Suc i)
      | None \<Rightarrow> if x = c then Some 0 else None)"

fun strstr :: "string \<Rightarrow> string \<Rightarrow> nat option" where
  "strstr [] needle = (if needle = [] then Some 0 else None)"
| "strstr (x # xs) needle =
     (if take (length needle) (x # xs) = needle then Some 0
      else map_option Suc (strstr xs needle))"

text \<open>U+2026 HORIZONTAL ELLIPSIS in UTF-8, the bytes E2 80 A6 (\<open>"\342\200\246"\<close>).\<close>

definition horizontal_ellipsis :: string where
  "horizontal_ellipsis = [CHR 0xE2, CHR 0x80, CHR 0xA6]"

text \<open>
  The last step of \<open>script_fu_script_get_title\<close>, "cut off ellipsis": \<open>tmp\<close> is the
  first \<open>...\<close> of the title or, when there is none, the first U+2026;
  \<open>tmp == title + strlen (title) - 3\<close> compares positions.
\<close>

definition cut_off_ellipsis :: "string \<Rightarrow> string" where
  "cut_off_ellipsis title =
     (let tmp = (case strstr title ''...'' of
                   Some i \<Rightarrow> Some i
                 | None \<Rightarrow> strstr title horizontal_ellipsis)
      in case tmp of
           None \<Rightarrow> title
         | Some i \<Rightarrow> if int i = int (length title) - 3 then take i title else title)"

text \<open>
  \<open>script_fu_script_get_title\<close>. \<open>title[0] == '<'\<close> on an empty title reads the
  terminating 0; \<open>tmp[1]\<close> is the character after the last slash, 0 at the end of the
  title.
\<close>

definition script_fu_script_get_title :: "SFScript \<Rightarrow> string" where
  "script_fu_script_get_title script =
     (let title = gimp_strip_uline (s_menu_label script);
          title =
            (if take 1 title = ''<''
             then (case strrchr title (CHR ''/'') of
                     None \<Rightarrow> title
                   | Some i \<Rightarrow> if Suc i < length title then drop (Suc i) title else title)
             else title)
      in cut_off_ellipsis title)"

text \<open>The two steps of the title as the spec words them (section 4.2).\<close>

definition after_last_slash :: "string \<Rightarrow> string" where
  "after_last_slash t = rev (takeWhile (\<lambda>c. c \<noteq> CHR ''/'') (rev t))"

definition ends_with :: "string \<Rightarrow> string \<Rightarrow> bool" where
  "ends_with t suffix = (length suffix \<le> length t \<and> drop (length t - length suffix) t = suffix)"

definition spec_shorten :: "string \<Rightarrow> string" where
  "spec_shorten t = (if take 1 t = ''<'' \<and> CHR ''/'' \<in> set t then after_last_slash t else t)"

definition spec_cut_ellipsis :: "string \<Rightarrow> string" where
  "spec_cut_ellipsis t =
     (if ends_with t ''...'' \<or> ends_with t horizontal_ellipsis
      then take (length t - 3) t else t)"

definition spec_title :: "SFScript \<Rightarrow> string" where
  "spec_title script = spec_cut_ellipsis (spec_shorten (gimp_strip_uline (s_menu_label script)))"

definition gaussian_blur_script :: SFScript where
  "gaussian_blur_script = script_with_args ''<Image>/Filters/Blur/Gaussian Blur...'' []"

definition trailing_slash_script :: SFScript where
  "trailing_slash_script = script_with_args ''<Image>/'' []"

definition two_ellipses_script :: SFScript where
  "two_ellipses_script = script_with_args ''Save... as...'' []"

definition no_menu_script :: SFScript where
  "no_menu_script = script_with_args ''<None>'' [plain_arg SF_IMAGE ''Image'']"

text \<open>
  The title as the code computes it, in the words of the spec: the part after the last
  slash is kept only when something follows that slash, and an ellipsis is the one the
  code finds when no other occurrence precedes it.
\<close>

definition kept_part :: "string \<Rightarrow> string" where
  "kept_part t =
     (if take 1 t = ''<'' \<and> CHR ''/'' \<in> set t \<and> last t \<noteq> CHR ''/''
      then after_last_slash t else t)"

definition occurs_at :: "string \<Rightarrow> string \<Rightarrow> nat \<Rightarrow> bool" where
  "occurs_at t needle j = (take (length needle) (drop j t) = needle)"

definition occurs_before :: "string \<Rightarrow> string \<Rightarrow> nat \<Rightarrow> bool" where
  "occurs_before t needle k = list_ex (occurs_at t needle) [0..<k]"

definition unicode_ellipsis_script :: SFScript where
  "unicode_ellipsis_script = script_with_args (''_Blur'' @ horizontal_ellipsis) []"

section \<open>The output grammar of the serializer\<close>

text \<open>
  The grammar of the spec (section 4.4): \<open>(<script-name> <tok_0> ... <tok_{n-1}>)\<close>, every
  token after a single space.
\<close>

fun spaced :: "string list \<Rightarrow> string" where
  "spaced [] = []"
| "spaced (t # ts) = '' '' @ t @ spaced ts"

definition call_text :: "string \<Rightarrow> string list \<Rightarrow> string" where
  "call_text name toks = ''('' @ name @ spaced toks @ '')''"

text \<open>The tokens of the arguments: from the current values, and from an invocation.\<close>

definition command_tokens :: "SFScript \<Rightarrow> string list option" where
  "command_tokens script = those (map command_token (s_args script))"

fun param_tokens :: "SFArgType list \<Rightarrow> GValue list \<Rightarrow> string list option" where
  "param_tokens [] vs = Some []"
| "param_tokens (t # ts) [] = None"
| "param_tokens (t # ts) (v # vs) =
     (case param_token t v of
        None \<Rightarrow> None
      | Some x \<Rightarrow> map_option (Cons x) (param_tokens ts vs))"

text \<open>
  An invocation fits a script when it holds the run mode and then, for every declared
  argument, a value of the kind the procedure's parameter has.
\<close>

fun value_fits :: "SFArgType \<Rightarrow> GValue \<Rightarrow> bool" where
  "value_fits t (GV_object g obj) = is_identity t"
| "value_fits t (GV_rgb c) = (t = SF_COLOR)"
| "value_fits t (GV_boolean b) = (t = SF_TOGGLE)"
| "value_fits t (GV_string s) =
     (t = SF_VALUE \<or> t = SF_STRING \<or> t = SF_TEXT \<or> t = SF_FILENAME \<or> t = SF_DIRNAME \<or>
      t = SF_FONT \<or> t = SF_PALETTE \<or> t = SF_PATTERN \<or> t = SF_GRADIENT \<or> t = SF_BRUSH)"
| "value_fits t (GV_double d) = (t = SF_ADJUSTMENT)"
| "value_fits t (GV_int i) = (t = SF_OPTION \<or> t = SF_ENUM)"
| "value_fits t (GV_enum i) = False"

definition invocation_fits :: "SFScript \<Rightarrow> GValue list \<Rightarrow> bool" where
  "invocation_fits script args =
     (args \<noteq> [] \<and> list_all2 value_fits (map a_type (s_args script)) (tl args))"

text \<open>The Brush token as the spec gives it, and as each of the two functions writes it.\<close>

definition spec_brush_token :: "string \<Rightarrow> gdouble \<Rightarrow> int \<Rightarrow> int \<Rightarrow> string" where
  "spec_brush_token name opacity spacing paint_mode =
     [CHR 0x27] @ ''('' @ quoted (script_fu_strescape name) @ '' '' @ g_ascii_dtostr opacity @
     '' '' @ printf_d spacing @ '' '' @ printf_d paint_mode @ '')''"

definition brush_list_token :: "SFBrush \<Rightarrow> string" where
  "brush_list_token b =
     [CHR 0x27] @ ''('' @ quoted (brush_name b) @ '' '' @ g_ascii_dtostr (brush_opacity b) @
     '' '' @ printf_d (brush_spacing b) @ '' '' @ printf_d (brush_paint_mode b) @ '')''"

definition brush_arg :: "string \<Rightarrow> SFArg" where
  "brush_arg name =
     \<lparr>a_type = SF_BRUSH, a_label = ''Brush'',
      a_default_value = SFA_brush \<lparr>brush_name = name, brush_opacity = Gdouble False 100 0,
         brush_spacing = 20, brush_paint_mode = 0\<rparr>,
      a_value = SFA_brush \<lparr>brush_name = name, brush_opacity = Gdouble False 100 0,
         brush_spacing = 20, brush_paint_mode = 0\<rparr>\<rparr>"

definition circle_brush_script :: SFScript where
  "circle_brush_script = script_with_args ''Brush'' [brush_arg ''Circle'']"

definition quote_brush_script :: SFScript where
  "quote_brush_script = script_with_args ''Brush'' [brush_arg (''a'' @ [DQUOTE] @ ''b'')]"

definition circle_brush_invocation :: "GValue list" where
  "circle_brush_invocation = [GV_enum 0, GV_string ''Circle'']"

text \<open>
  Top-level tokens of a call expression. A reader of the embedding language is in one of
  three modes, at some depth of parentheses: outside a string, inside a string, or
  inside a string after a backslash. A string runs from a double quote to the next
  double quote that no backslash escapes. The top-level tokens of the text between the
  outer parentheses are the runs that spaces outside every string and every inner
  parenthesis separate.
\<close>

datatype scan_mode = Plain | InString | Escaped

fun scan_step :: "nat \<times> scan_mode \<Rightarrow> char \<Rightarrow> nat \<times> scan_mode" where
  "scan_step (d, Plain) c =
     (if c = DQUOTE then (d, InString)
      else if c = CHR ''('' then (Suc d, Plain)
      else if c = CHR '')'' then (d - 1, Plain)
      else (d, Plain))"
| "scan_step (d, InString) c =
     (if c = BACKSLASH then (d, Escaped)
      else if c = DQUOTE then (d, Plain)
      else (d, InString))"
| "scan_step (d, Escaped) c = (d, InString)"

fun split_tokens :: "nat \<times> scan_mode \<Rightarrow> string \<Rightarrow> string \<Rightarrow> string list" where
  "split_tokens st cur [] = (if cur = [] then [] else [cur])"
| "split_tokens st cur (c # cs) =
     (if c = CHR '' '' \<and> st = (0, Plain)
      then (if cur = [] then [] else [cur]) @ split_tokens st [] cs
      else split_tokens (scan_step st c) (cur @ [c]) cs)"

text \<open>
  Reading from a state, a text is free of a character when the character never stands
  at depth 0 outside a string.
\<close>

fun free_of :: "char \<Rightarrow> nat \<times> scan_mode \<Rightarrow> string \<Rightarrow> bool" where
  "free_of x st [] = True"
| "free_of x st (c # cs) =
     (if st = (0, Plain) \<and> c = x then False else free_of x (scan_step st c) cs)"

text \<open>
  A text is closed when no parenthesis closes at depth 0 outside a string and the text
  ends outside every string and parenthesis.
\<close>

definition closed_text :: "string \<Rightarrow> bool" where
  "closed_text t = (free_of (CHR '')'') (0, Plain) t \<and> foldl scan_step (0, Plain) t = (0, Plain))"

definition top_level_tokens :: "string \<Rightarrow> string list option" where
  "top_level_tokens r =
     (case r of
        [] \<Rightarrow> None
      | c # cs \<Rightarrow>
          if c = CHR ''('' \<and> cs \<noteq> [] \<and> last cs = CHR '')''
          then Some (split_tokens (0, Plain) [] (butlast cs)) else None)"

definition single_call_expression :: "string \<Rightarrow> bool" where
  "single_call_expression r =
     (case r of
        [] \<Rightarrow> False
      | c # cs \<Rightarrow> c = CHR ''('' \<and> cs \<noteq> [] \<and> last cs = CHR '')'' \<and> closed_text (butlast cs))"

text \<open>
  A text is a single token when it is not empty, is closed, and has no space outside its
  strings and parentheses.
\<close>

definition single_token :: "string \<Rightarrow> bool" where
  "single_token t = (t \<noteq> [] \<and> closed_text t \<and> free_of (CHR '' '') (0, Plain) t)"

text \<open>
  The types whose text the serializer inserts as it is, without escaping: the raw Value
  and the resource names.
\<close>

fun inserted_verbatim :: "SFArgType \<Rightarrow> bool" where
  "inserted_verbatim SF_VALUE = True"
| "inserted_verbatim SF_FONT = True"
| "inserted_verbatim SF_PALETTE = True"
| "inserted_verbatim SF_PATTERN = True"
| "inserted_verbatim SF_GRADIENT = True"
| "inserted_verbatim SF_BRUSH = True"
| "inserted_verbatim _ = False"

definition token_is_single :: "SFArg \<Rightarrow> bool" where
  "token_is_single arg =
     (case command_token arg of None \<Rightarrow> False | Some t \<Rightarrow> single_token t)"

definition verbatim_texts_single :: "SFScript \<Rightarrow> bool" where
  "verbatim_texts_single script =
     list_all (\<lambda>arg. if inserted_verbatim (a_type arg) then token_is_single arg else True)
       (s_args script)"

definition two_token_value_script :: SFScript where
  "two_token_value_script =
     (script_with_args ''Value''
        [\<lparr>a_type = SF_VALUE, a_label = ''Value'', a_default_value = SFA_value ''1 2'',
          a_value = SFA_value ''1 2''\<rparr>])\<lparr>s_name := ''f''\<rparr>"

text \<open>The characters of the numbers that \<open>printf_d\<close> and \<open>g_ascii_dtostr\<close> write.\<close>

definition number_chars :: "char set" where
  "number_chars = set ''0123456789-+.e''"

text \<open>
  The names of the spec (section 4.2): the \<open>k\<close>-th argument of a type family, counted
  from 1 along the argument list, keeps the bare name and nickname when \<open>k = 1\<close> and has
  \<open>-<k>\<close> and \<open> <k>\<close> appended otherwise.
\<close>

definition occurrence :: "SFArg list \<Rightarrow> nat \<Rightarrow> nat" where
  "occurrence as i = count_list (map a_type (take (Suc i) as)) (a_type (as ! i))"

definition family_name :: "SFArgType \<Rightarrow> nat \<Rightarrow> string" where
  "family_name t k =
     (if k = 1 then fst (pdb_name_nick t)
      else fst (pdb_name_nick t) @ ''-'' @ printf_d (int k))"

definition family_nick :: "SFArgType \<Rightarrow> nat \<Rightarrow> string" where
  "family_nick t k =
     (if k = 1 then snd (pdb_name_nick t)
      else snd (pdb_name_nick t) @ '' '' @ printf_d (int k))"

text \<open>What the loop adds for a list of arguments, starting from the counters \<open>ac\<close>.\<close>

fun numbered_specs :: "(SFArgType \<Rightarrow> nat) \<Rightarrow> int list \<Rightarrow> SFArg list \<Rightarrow> GParamSpec list" where
  "numbered_specs num ac [] = []"
| "numbered_specs num ac (a # as) =
     argument_pspec (ac ! num (a_type a)) a #
     numbered_specs num (ac[num (a_type a) := ac ! num (a_type a) + 1]) as"

text \<open>
  The condition on the stored texts that are inserted without escaping: the text of a
  Value is itself a single token, and the name of a Font, Palette, Pattern, Gradient or
  Brush holds neither a double quote nor a backslash.
\<close>

definition plain_name :: "string \<Rightarrow> bool" where
  "plain_name t = (DQUOTE \<notin> set t \<and> BACKSLASH \<notin> set t)"

definition verbatim_text_ok :: "SFArg \<Rightarrow> bool" where
  "verbatim_text_ok arg =
     (case a_value arg of
        SFA_value t \<Rightarrow> (if a_type arg = SF_VALUE then single_token t else True)
      | SFA_font t \<Rightarrow> plain_name t
      | SFA_palette t \<Rightarrow> plain_name t
      | SFA_pattern t \<Rightarrow> plain_name t
      | SFA_gradient t \<Rightarrow> plain_name t
      | SFA_brush b \<Rightarrow> plain_name (brush_name b)
      | _ \<Rightarrow> True)"

definition verbatim_texts_ok :: "SFScript \<Rightarrow> bool" where
  "verbatim_texts_ok script = list_all verbatim_text_ok (s_args script)"

text \<open>
  A script with a Value, a Font, a Brush and a Toggle argument, and the script named f
  whose Font name holds double quotes.
\<close>

definition paint_script :: SFScript where
  "paint_script =
     (script_with_args ''Paint''
        [\<lparr>a_type = SF_VALUE, a_label = ''Size'', a_default_value = SFA_value ''(+ 1 2)'',
          a_value = SFA_value ''(+ 1 2)''\<rparr>,
         \<lparr>a_type = SF_FONT, a_label = ''Font'', a_default_value = SFA_font ''Sans Bold'',
          a_value = SFA_font ''Sans Bold''\<rparr>,
         brush_arg ''Circle'',
         \<lparr>a_type = SF_TOGGLE, a_label = ''Flatten'', a_default_value = SFA_toggle False,
          a_value = SFA_toggle False\<rparr>])\<lparr>s_name := ''script-fu-paint''\<rparr>"

definition quoted_font_script :: SFScript where
  "quoted_font_script =
     (script_with_args ''Font''
        [\<lparr>a_type = SF_FONT, a_label = ''Font'',
          a_default_value = SFA_font (''a'' @ [DQUOTE] @ '' '' @ [DQUOTE] @ ''b''),
          a_value = SFA_font (''a'' @ [DQUOTE] @ '' '' @ [DQUOTE] @ ''b'')\<rparr>])\<lparr>s_name := ''f''\<rparr>"

section \<open>Properties of the extractor\<close>

lemma param_init_eq:
  "script_fu_script_param_init script args t n =
     (if slot_matches script args t n then (bind_id script args n, True) else (script, False))"
  by (cases t) (auto simp: script_fu_script_param_init_def slot_matches_def bind_id_def
      holds_then_init_def n_args_def Let_def)

lemma map_a_type_bind_id [simp]:
  "map a_type (s_args (bind_id script args m)) = map a_type (s_args script)"
proof -
  have "(map a_type (s_args script))[m := a_type (s_args script ! m)] = map a_type (s_args script)"
    by (metis list_update_id map_update)
  then show ?thesis by (simp add: bind_id_def set_arg_id_def map_update)
qed

lemma slot_matches_cong:
  assumes h: "map a_type (s_args s') = map a_type (s_args s)"
  shows "slot_matches s' args t n = slot_matches s args t n"
proof -
  from h have l: "length (s_args s') = length (s_args s)" by (metis length_map)
  have "n < length (s_args s) \<Longrightarrow> a_type (s_args s' ! n) = a_type (s_args s ! n)"
    using h l by (metis nth_map)
  then show ?thesis using l by (auto simp: slot_matches_def)
qed

lemma slot_matches_bind_id [simp]:
  "slot_matches (bind_id script args m) args t n = slot_matches script args t n"
  by (rule slot_matches_cong) simp

lemma collect_eq_extract_leading:
  "script_fu_script_collect_standard_args script args = extract_leading script args"
  unfolding script_fu_script_collect_standard_args_def extract_leading_def
  by (simp add: param_init_eq Let_def split: prod.splits)

lemma bind_id_frame [simp]:
  "(bind_id script args n)\<lparr>s_args := xs\<rparr> = script\<lparr>s_args := xs\<rparr>"
  "length (s_args (bind_id script args n)) = length (s_args script)"
  "n < k \<Longrightarrow> drop k (s_args (bind_id script args n)) = drop k (s_args script)"
  "map a_label (s_args (bind_id script args n)) = map a_label (s_args script)"
  "map a_default_value (s_args (bind_id script args n)) = map a_default_value (s_args script)"
proof -
  have u: "\<And>f. f (s_args script ! n) = f ((s_args script ! n)\<lparr>a_value := v\<rparr>) \<Longrightarrow>
      map f ((s_args script)[n := (s_args script ! n)\<lparr>a_value := v\<rparr>]) = map f (s_args script)" for v
    by (metis list_update_id map_update)
  show "(bind_id script args n)\<lparr>s_args := xs\<rparr> = script\<lparr>s_args := xs\<rparr>"
    by (simp add: bind_id_def set_arg_id_def)
  show "length (s_args (bind_id script args n)) = length (s_args script)"
    by (simp add: bind_id_def set_arg_id_def)
  show "n < k \<Longrightarrow> drop k (s_args (bind_id script args n)) = drop k (s_args script)"
    by (simp add: bind_id_def set_arg_id_def)
  show "map a_label (s_args (bind_id script args n)) = map a_label (s_args script)"
    by (simp add: bind_id_def set_arg_id_def u)
  show "map a_default_value (s_args (bind_id script args n)) = map a_default_value (s_args script)"
    by (simp add: bind_id_def set_arg_id_def u)
qed

lemma extract_leading_frame:
  "snd (extract_leading script args) \<le> 3 \<and>
   (fst (extract_leading script args))\<lparr>s_args := s_args script\<rparr> = script \<and>
   length (s_args (fst (extract_leading script args))) = length (s_args script) \<and>
   drop (snd (extract_leading script args)) (s_args (fst (extract_leading script args))) =
     drop (snd (extract_leading script args)) (s_args script) \<and>
   map a_type (s_args (fst (extract_leading script args))) = map a_type (s_args script) \<and>
   map a_label (s_args (fst (extract_leading script args))) = map a_label (s_args script) \<and>
   map a_default_value (s_args (fst (extract_leading script args))) =
     map a_default_value (s_args script) \<and>
   (snd (extract_leading script args) = 0 \<longrightarrow> fst (extract_leading script args) = script)"
  by (simp add: extract_leading_def Let_def)

lemma scenario_full_run:
  "extract_leading scenario_script scenario_full_invocation =
     (scenario_script\<lparr>s_args :=
        [(s_args scenario_script ! 0)\<lparr>a_value := SFA_id 42\<rparr>,
         (s_args scenario_script ! 1)\<lparr>a_value := SFA_id 7\<rparr>,
         (s_args scenario_script ! 2)\<lparr>a_value := SFA_id 3\<rparr>,
         s_args scenario_script ! 3]\<rparr>, 3)"
  by (simp add: extract_leading_def slot_matches_def bind_id_def set_arg_id_def
      scenario_script_def scenario_full_invocation_def)

lemma scenario_no_display_run:
  "extract_leading scenario_script scenario_no_display_invocation = (scenario_script, 0)"
  by (simp add: extract_leading_def slot_matches_def bind_id_def set_arg_id_def
      scenario_script_def scenario_no_display_invocation_def)

text \<open>
  C3. For every script and invocation, \<open>script_fu_script_collect_standard_args\<close>
  computes what the ordered probing of the spec describes (\<open>extract_leading\<close>: Display at
  position 0, Image at the next unconsumed position, then, only after an Image match, one
  of Drawable, Layer, Channel, Vectors at the following position; a match needs the slot
  of exactly that type and a value typed as expected, and binds the value's id), and the
  count is at most 3. For the schema [Display, Image, Drawable, Adjustment], the
  invocation with display 42, image 7, drawable 3 and 1.5 consumes 3 and writes 42, 7, 3
  into the first three arguments; the invocation with image 7, drawable 3 and 1.5
  consumes 0.
\<close>

theorem collect_standard_args_ordered_probing:
  "script_fu_script_collect_standard_args script args = extract_leading script args \<and>
   snd (script_fu_script_collect_standard_args script args) \<le> 3 \<and>
   snd (script_fu_script_collect_standard_args scenario_script scenario_full_invocation) = 3 \<and>
   map a_value
     (s_args (fst (script_fu_script_collect_standard_args scenario_script scenario_full_invocation))) =
     [SFA_id 42, SFA_id 7, SFA_id 3, SFA_adjustment scenario_adjustment] \<and>
   snd (script_fu_script_collect_standard_args scenario_script scenario_no_display_invocation) = 0"
proof -
  have "snd (extract_leading script args) \<le> 3"
    using extract_leading_frame [of script args] by blast
  moreover have
    "map a_value (s_args (fst (extract_leading scenario_script scenario_full_invocation))) =
       [SFA_id 42, SFA_id 7, SFA_id 3, SFA_adjustment scenario_adjustment]"
    unfolding scenario_full_run by (simp add: scenario_script_def)
  ultimately show ?thesis
    by (simp add: collect_eq_extract_leading scenario_full_run scenario_no_display_run)
qed

text \<open>
  C10. Whatever \<open>script_fu_script_collect_standard_args\<close> returns, the script it leaves
  differs from the one it was given at most in the current values of the first
  \<open>params_consumed\<close> arguments: the script-level fields, the number of arguments, every
  argument from position \<open>params_consumed\<close> on, and the type, label and default value of
  every argument are the same; when it returns 0 the script is the same.
\<close>

theorem collect_standard_args_frame:
  assumes "script_fu_script_collect_standard_args script args = (script', k)"
  shows "k \<le> 3 \<and>
     script'\<lparr>s_args := s_args script\<rparr> = script \<and>
     length (s_args script') = length (s_args script) \<and>
     drop k (s_args script') = drop k (s_args script) \<and>
     map a_type (s_args script') = map a_type (s_args script) \<and>
     map a_label (s_args script') = map a_label (s_args script) \<and>
     map a_default_value (s_args script') = map a_default_value (s_args script) \<and>
     (k = 0 \<longrightarrow> script' = script)"
proof -
  from assms have "fst (extract_leading script args) = script'"
    and "snd (extract_leading script args) = k"
    by (simp_all add: collect_eq_extract_leading)
  then show ?thesis using extract_leading_frame [of script args] by simp
qed

theorem collect_standard_args_frame_witness:
  "script_fu_script_collect_standard_args scenario_script scenario_no_display_invocation =
     (scenario_script, 0) \<and>
   drop 3 (s_args (fst (script_fu_script_collect_standard_args scenario_script
     scenario_full_invocation))) = drop 3 (s_args scenario_script) \<and>
   map a_default_value (s_args (fst (script_fu_script_collect_standard_args scenario_script
     scenario_full_invocation))) = map a_default_value (s_args scenario_script)"
proof -
  have a: "script_fu_script_collect_standard_args scenario_script scenario_no_display_invocation =
      (scenario_script, 0)"
    by (simp add: collect_eq_extract_leading scenario_no_display_run)
  obtain s' where b: "script_fu_script_collect_standard_args scenario_script
      scenario_full_invocation = (s', 3)"
    by (simp add: collect_eq_extract_leading scenario_full_run)
  show ?thesis
    using a collect_standard_args_frame [OF a] collect_standard_args_frame [OF b] b by simp
qed

section \<open>Properties of the defaults resetter\<close>

lemma reset_loop_those:
  "i \<le> length (s_args script) \<Longrightarrow>
   reset_loop flag i script =
     map_option (\<lambda>as. script\<lparr>s_args := take i (s_args script) @ as\<rparr>)
       (those (map (reset_arg flag) (drop i (s_args script))))"
proof (induction flag i script rule: reset_loop.induct)
  case (1 flag i script)
  show ?case
  proof (cases "i < n_args script")
    case False
    have r: "reset_loop flag i script = Some script"
      using False by (subst reset_loop.simps) simp
    from False 1(2) have "i = length (s_args script)" by (simp add: n_args_def)
    then show ?thesis unfolding r by simp
  next
    case True
    then have lt: "i < length (s_args script)" by (simp add: n_args_def)
    have d: "drop i (s_args script) = s_args script ! i # drop (Suc i) (s_args script)"
      using lt by (simp add: Cons_nth_drop_Suc)
    show ?thesis
    proof (cases "reset_arg flag (s_args script ! i)")
      case None
      have r: "reset_loop flag i script = None"
        using True None by (subst reset_loop.simps) simp
      show ?thesis unfolding r using None by (simp add: d)
    next
      case (Some a)
      let ?s2 = "script\<lparr>s_args := (s_args script)[i := a]\<rparr>"
      have ih: "reset_loop flag (Suc i) ?s2 =
          map_option (\<lambda>as. ?s2\<lparr>s_args := take (Suc i) (s_args ?s2) @ as\<rparr>)
            (those (map (reset_arg flag) (drop (Suc i) (s_args ?s2))))"
        using 1(1) [OF True Some] lt by simp
      have t: "take (Suc i) ((s_args script)[i := a]) = take i (s_args script) @ [a]"
        using lt by (simp add: take_Suc_conv_app_nth)
      have r: "reset_loop flag i script = reset_loop flag (Suc i) ?s2"
        using True Some by (subst reset_loop.simps) simp
      show ?thesis
        unfolding r ih using Some lt
        by (simp add: d t option.map_comp comp_def)
    qed
  qed
qed

lemma reset_eq_those:
  "script_fu_script_reset script flag =
     map_option (\<lambda>as. script\<lparr>s_args := as\<rparr>) (those (map (reset_arg flag) (s_args script)))"
  by (simp add: script_fu_script_reset_def reset_loop_those)

lemma reset_arg_wf:
  assumes "wf_arg a"
  shows "\<exists>a'. reset_arg flag a = Some a' \<and> restored flag a a' \<and> wf_arg a' \<and>
           a_type a' = a_type a \<and> a_label a' = a_label a \<and>
           a_default_value a' = a_default_value a"
  using assms
  by (cases "a_type a"; cases "a_default_value a"; cases "a_value a")
     (auto simp: wf_arg_def reset_arg_def restored_def same_payload_def)

lemma reset_args_wf:
  "list_all wf_arg xs \<Longrightarrow>
   \<exists>ys. those (map (reset_arg flag) xs) = Some ys \<and> list_all2 (restored flag) xs ys \<and>
        list_all wf_arg ys \<and> map a_type ys = map a_type xs \<and>
        map a_label ys = map a_label xs \<and> map a_default_value ys = map a_default_value xs"
proof (induction xs)
  case Nil
  then show ?case by simp
next
  case (Cons a xs)
  then obtain ys where ys: "those (map (reset_arg flag) xs) = Some ys"
    "list_all2 (restored flag) xs ys" "list_all wf_arg ys" "map a_type ys = map a_type xs"
    "map a_label ys = map a_label xs" "map a_default_value ys = map a_default_value xs"
    by auto
  from Cons.prems have "wf_arg a" by simp
  from reset_arg_wf [OF this, of flag] obtain a' where a': "reset_arg flag a = Some a'"
    "restored flag a a'" "wf_arg a'" "a_type a' = a_type a" "a_label a' = a_label a"
    "a_default_value a' = a_default_value a"
    by blast
  show ?case using ys a' by simp
qed

lemma reset_wf:
  assumes "wf_script script"
  shows "\<exists>script'. script_fu_script_reset script flag = Some script' \<and>
           script'\<lparr>s_args := s_args script\<rparr> = script \<and>
           list_all2 (restored flag) (s_args script) (s_args script') \<and>
           wf_script script' \<and>
           map a_type (s_args script') = map a_type (s_args script) \<and>
           map a_label (s_args script') = map a_label (s_args script) \<and>
           map a_default_value (s_args script') = map a_default_value (s_args script)"
proof -
  from assms have "list_all wf_arg (s_args script)" by (simp add: wf_script_def)
  from reset_args_wf [OF this, of flag] obtain ys where
    "those (map (reset_arg flag) (s_args script)) = Some ys"
    "list_all2 (restored flag) (s_args script) ys" "list_all wf_arg ys"
    "map a_type ys = map a_type (s_args script)" "map a_label ys = map a_label (s_args script)"
    "map a_default_value ys = map a_default_value (s_args script)"
    by blast
  then show ?thesis by (simp add: reset_eq_those wf_script_def)
qed

lemma reset_sequence_wf:
  "wf_script script \<Longrightarrow>
   \<exists>script'. reset_sequence script flags = Some script' \<and> wf_script script' \<and>
     map a_default_value (s_args script') = map a_default_value (s_args script)"
proof (induction flags arbitrary: script)
  case Nil
  then show ?case by simp
next
  case (Cons f fs)
  from reset_wf [OF Cons.prems, of f] obtain s1 where s1:
    "script_fu_script_reset script f = Some s1" "wf_script s1"
    "map a_default_value (s_args s1) = map a_default_value (s_args script)"
    by blast
  from Cons.IH [OF s1(2)] obtain s2 where
    "reset_sequence s1 fs = Some s2" "wf_script s2"
    "map a_default_value (s_args s2) = map a_default_value (s_args s1)"
    by blast
  then show ?case using s1 by simp
qed

lemma wf_used_script: "wf_script used_script"
  by (simp add: wf_script_def wf_arg_def used_script_def)

lemma reset_used_script:
  "map a_value (s_args (the (script_fu_script_reset used_script False))) =
     [SFA_id 7, SFA_toggle True, SFA_value ''hello'',
      SFA_adjustment scenario_adjustment,
      SFA_option \<lparr>option_list = [], option_history = 0\<rparr>]"
  by (simp add: reset_eq_those reset_arg_def used_script_def scenario_adjustment_def)

text \<open>
  C4. On a script that keeps the invariant of the data model, \<open>script_fu_script_reset\<close>
  returns, for both values of the flag, a script in which every argument of a
  non-identity type holds the payload of its default (for an Adjustment the magnitude,
  for an Option or Enum the selected index, else the whole value), whatever the flag; and
  every argument of an identity type holds its default when the flag is set and its
  former current value when it is not.
\<close>

theorem reset_restores_defaults:
  assumes "wf_script script"
  shows "\<exists>script'. script_fu_script_reset script reset_ids = Some script' \<and>
           length (s_args script') = length (s_args script) \<and>
           list_all2 (restored reset_ids) (s_args script) (s_args script')"
proof -
  from reset_wf [OF assms, of reset_ids] obtain script' where
    "script_fu_script_reset script reset_ids = Some script'"
    "list_all2 (restored reset_ids) (s_args script) (s_args script')"
    by blast
  moreover from this have "length (s_args script') = length (s_args script)"
    by (simp add: list_all2_lengthD)
  ultimately show ?thesis by blast
qed

theorem reset_restores_defaults_witness:
  "wf_script used_script \<and>
   (\<exists>script'. script_fu_script_reset used_script False = Some script' \<and>
      length (s_args script') = length (s_args used_script) \<and>
      list_all2 (restored False) (s_args used_script) (s_args script') \<and>
      map a_value (s_args script') =
        [SFA_id 7, SFA_toggle True, SFA_value ''hello'',
         SFA_adjustment scenario_adjustment,
         SFA_option \<lparr>option_list = [], option_history = 0\<rparr>])"
  using reset_restores_defaults [OF wf_used_script, of False] wf_used_script reset_used_script
  by auto

text \<open>
  C9. On a script that keeps the invariant of the data model, one call of
  \<open>script_fu_script_reset\<close>, with either flag, and any sequence of such calls return a
  script whose default values are the ones it had before.
\<close>

theorem reset_keeps_defaults:
  assumes "wf_script script"
  shows "(\<exists>script'. script_fu_script_reset script reset_ids = Some script' \<and>
            map a_default_value (s_args script') = map a_default_value (s_args script)) \<and>
         (\<exists>script'. reset_sequence script flags = Some script' \<and>
            map a_default_value (s_args script') = map a_default_value (s_args script))"
  using reset_wf [OF assms, of reset_ids] reset_sequence_wf [OF assms, of flags] by blast

theorem reset_keeps_defaults_witness:
  "wf_script used_script \<and>
   (\<exists>script'. script_fu_script_reset used_script True = Some script' \<and>
      map a_default_value (s_args script') = map a_default_value (s_args used_script)) \<and>
   (\<exists>script'. reset_sequence used_script [False, True, False] = Some script' \<and>
      map a_default_value (s_args script') = map a_default_value (s_args used_script))"
  using reset_keeps_defaults [OF wf_used_script, of True "[False, True, False]"] wf_used_script
  by blast

section \<open>Properties of the procedure descriptor builder\<close>

lemma strncmp_Cons_zero:
  "(of_char y :: nat) \<noteq> 0 \<Longrightarrow>
   (strncmp s (y # ys) (Suc n) = 0) =
     (case s of [] \<Rightarrow> False | x # xs \<Rightarrow> x = y \<and> strncmp xs ys n = 0)"
  by (cases s) auto

lemma take_Suc_eq_Cons:
  "(take (Suc n) s = y # t) = (case s of [] \<Rightarrow> False | x # xs \<Rightarrow> x = y \<and> take n xs = t)"
  by (cases s) auto

lemma strncmp_None_sentinel: "strncmp s ''<None>'' 6 = 0 \<longleftrightarrow> take 6 s = ''<None>''"
  by (simp add: eval_nat_numeral strncmp_Cons_zero take_Suc_eq_Cons split: list.splits)

lemma add_script_arguments_end:
  "\<not> i < n_args script \<Longrightarrow> add_script_arguments num script i ac p = Inr p"
  by (subst add_script_arguments.simps) simp

lemma add_script_arguments_out:
  "i < n_args script \<Longrightarrow> \<not> num (a_type (s_args script ! i)) < length ac \<Longrightarrow>
   add_script_arguments num script i ac p = Inl ArgCountOutOfBounds"
  by (subst add_script_arguments.simps) (simp add: Let_def)

lemma add_script_arguments_step:
  "i < n_args script \<Longrightarrow> num (a_type (s_args script ! i)) < length ac \<Longrightarrow>
   add_script_arguments num script i ac p =
     add_script_arguments num script (Suc i)
       (ac[num (a_type (s_args script ! i)) := ac ! num (a_type (s_args script ! i)) + 1])
       (gimp_procedure_add_argument p
          (argument_pspec (ac ! num (a_type (s_args script ! i))) (s_args script ! i)))"
  by (subst add_script_arguments.simps) (simp add: Let_def)

lemma add_script_arguments_keeps:
  "add_script_arguments num script i ac p = Inr p' \<Longrightarrow> p'\<lparr>proc_args := proc_args p\<rparr> = p"
proof (induction num script i ac p rule: add_script_arguments.induct)
  case (1 num script i ac p)
  show ?case
  proof (cases "i < n_args script")
    case False
    with 1(2) show ?thesis by (simp add: add_script_arguments_end)
  next
    case True
    show ?thesis
    proof (cases "num (a_type (s_args script ! i)) < length ac")
      case False
      with True 1(2) show ?thesis by (simp add: add_script_arguments_out)
    next
      case inb: True
      let ?q = "gimp_procedure_add_argument p
          (argument_pspec (ac ! num (a_type (s_args script ! i))) (s_args script ! i))"
      have "p'\<lparr>proc_args := proc_args ?q\<rparr> = ?q"
        using 1(1) [OF True refl refl inb] 1(2)
          add_script_arguments_step [of i script num ac p, OF True inb]
        by simp
      then show ?thesis
        by (cases p'; cases p) (simp add: gimp_procedure_add_argument_def)
    qed
  qed
qed

lemmas builder_eval =
  script_fu_script_create_PDB_procedure_def script_with_args_def plain_arg_def
  add_script_arguments.simps n_args_def Let_def gimp_procedure_add_argument_def
  gimp_procedure_new_def argument_pspec_def numbered_name_def numbered_nick_def g_strlcpy_def
  g_snprintf_def printf_d_def string_of_nat.simps digit_char_def strncmp_None_sentinel

lemma three_images_names:
  "\<exists>p. script_fu_script_create_PDB_procedure header_numbering three_images t = Inr p \<and>
     proc_menu_label p = Some ''Three'' \<and>
     map ps_name (proc_args p) = [''run-mode'', ''image'', ''image-2'', ''image-3''] \<and>
     map ps_nick (proc_args p) = [''Run mode'', ''Image'', ''Image 2'', ''Image 3'']"
  by (simp add: three_images_def builder_eval)

lemma no_menu_script_built:
  "\<exists>p. script_fu_script_create_PDB_procedure header_numbering no_menu_script t = Inr p"
  by (simp add: no_menu_script_def builder_eval)

text \<open>
  C2. The claim fails on a script with a Display argument. The counters are
  \<open>gint arg_count[SF_DISPLAY]\<close>, an array of \<open>SF_DISPLAY\<close> elements, so the counter of
  \<open>SF_DISPLAY\<close> itself, \<open>arg_count[SF_DISPLAY]\<close>, lies one past its end whatever the
  numbering of the enumerators is: for the script with the single argument of type
  Display the builder reads outside the array and names nothing.
\<close>

theorem display_counter_out_of_bounds:
  "script_fu_script_create_PDB_procedure num one_display plug_in_type = Inl ArgCountOutOfBounds"
  by (simp add: script_fu_script_create_PDB_procedure_def one_display_def script_with_args_def
      plain_arg_def add_script_arguments_out n_args_def Let_def)

text \<open>
  C8. Whenever \<open>script_fu_script_create_PDB_procedure\<close> returns a procedure, the
  procedure has no menu label if the first 6 characters of the script's menu label are
  \<open><None>\<close>; otherwise, if the script's menu label is not empty, the procedure's menu
  label is that label.
\<close>

theorem none_sentinel_suppresses_menu_label:
  assumes "script_fu_script_create_PDB_procedure num script plug_in_type = Inr procedure"
  shows "proc_menu_label procedure =
           (if take 6 (s_menu_label script) = ''<None>'' then None
            else if s_menu_label script \<noteq> [] then Some (s_menu_label script) else None)"
proof -
  define p0 where "p0 =
    gimp_procedure_add_argument
      ((gimp_procedure_new (s_name script) plug_in_type)
         \<lparr>proc_image_types := s_image_types script,
          proc_menu_label :=
            (if take 6 (s_menu_label script) = ''<None>'' then None
             else if s_menu_label script \<noteq> [] then Some (s_menu_label script) else None),
          proc_blurb := s_blurb script, proc_help_id := s_name script,
          proc_authors := s_author script, proc_copyright := s_copyright script,
          proc_date := s_date script\<rparr>)
      \<lparr>ps_name = ''run-mode'', ps_nick = ''Run mode'', ps_blurb = ''The run mode'',
       ps_type = PT_run_mode\<rparr>"
  have "script_fu_script_create_PDB_procedure num script plug_in_type =
      add_script_arguments num script 0 (replicate (num SF_DISPLAY) 0) p0"
    by (simp add: script_fu_script_create_PDB_procedure_def p0_def strncmp_None_sentinel
        gimp_procedure_new_def gimp_procedure_add_argument_def Let_def)
  with assms have "procedure\<lparr>proc_args := proc_args p0\<rparr> = p0"
    using add_script_arguments_keeps by simp
  then have "proc_menu_label procedure = proc_menu_label p0"
    by (cases procedure; cases p0) simp
  then show ?thesis
    by (simp add: p0_def gimp_procedure_add_argument_def gimp_procedure_new_def)
qed

theorem none_sentinel_suppresses_menu_label_witness:
  "(\<exists>p. script_fu_script_create_PDB_procedure header_numbering no_menu_script
           GIMP_PDB_PROC_TYPE_TEMPORARY = Inr p \<and> proc_menu_label p = None) \<and>
   (\<exists>p. script_fu_script_create_PDB_procedure header_numbering three_images
           GIMP_PDB_PROC_TYPE_TEMPORARY = Inr p \<and> proc_menu_label p = Some ''Three'')"
proof -
  obtain p where p: "script_fu_script_create_PDB_procedure header_numbering no_menu_script
      GIMP_PDB_PROC_TYPE_TEMPORARY = Inr p"
    using no_menu_script_built by blast
  obtain q where q: "script_fu_script_create_PDB_procedure header_numbering three_images
      GIMP_PDB_PROC_TYPE_TEMPORARY = Inr q"
    using three_images_names by blast
  have "proc_menu_label p = None"
    using none_sentinel_suppresses_menu_label [OF p]
    by (simp add: no_menu_script_def script_with_args_def)
  moreover have "proc_menu_label q = Some ''Three''"
    using none_sentinel_suppresses_menu_label [OF q]
    by (simp add: three_images_def script_with_args_def)
  ultimately show ?thesis using p q by blast
qed

section \<open>Properties of the value serializer\<close>

lemmas format_eval =
  g_ascii_dtostr.simps format_g17_def decimal_exponent_def scaled17_def round_div_def fraction_part_def
  strip_trailing_zeros_def digit_char_def string_of_nat.simps first_scale.simps
  exponent_part_def printf_d_def Let_def

lemma dtostr_three_and_a_half: "g_ascii_dtostr three_and_a_half = ''3.5''"
  by (simp add: three_and_a_half_def format_eval)

lemma dtostr_one_tenth:
  "g_ascii_dtostr (Gdouble False 3602879701896397 (- 55)) = ''0.10000000000000001''"
  by (simp add: format_eval)

lemma get_command_test_blur:
  "script_fu_script_get_command test_blur =
     Some (''(test-blur 3.5 TRUE '' @ [DQUOTE] @ ''hello'' @ [DQUOTE] @ '')'')"
  by (simp add: script_fu_script_get_command_def get_command_loop.simps n_args_def test_blur_def
      command_token_def quoted_def dtostr_three_and_a_half)

text \<open>
  C1, as the code has it. For the script named test-blur with the arguments Adjustment
  (default 3.5), Toggle (default true) and String (default hello), every current value
  equal to its default, \<open>script_fu_script_get_command\<close> returns exactly
  \<open>(test-blur 3.5 TRUE "hello")\<close>: the Adjustment is written by \<open>g_ascii_dtostr\<close>, which
  is \<open>%.17g\<close> with \<open>.\<close> as the decimal point in every locale and writes no trailing
  zeros.
\<close>

theorem get_command_test_blur_text:
  "script_fu_script_get_command test_blur =
     Some (''(test-blur 3.5 TRUE '' @ [DQUOTE] @ ''hello'' @ [DQUOTE] @ '')'')"
  by (rule get_command_test_blur)

text \<open>
  C1, as the spec states it: the text with the fixed-precision token \<open>3.500000\<close> is not
  what \<open>script_fu_script_get_command\<close> returns.
\<close>

theorem get_command_test_blur_not_fixed_precision:
  "script_fu_script_get_command test_blur \<noteq>
     Some (''(test-blur 3.500000 TRUE '' @ [DQUOTE] @ ''hello'' @ [DQUOTE] @ '')'')"
  by (simp add: get_command_test_blur)

section \<open>Properties of the title\<close>

lemma strrchr_None: "strrchr t c = None \<longleftrightarrow> c \<notin> set t"
  by (induction t) (auto split: option.splits)

lemma strrchr_Some:
  "strrchr t c = Some i \<Longrightarrow> i < length t \<and> t ! i = c \<and> c \<notin> set (drop (Suc i) t)"
proof (induction t arbitrary: i)
  case Nil
  then show ?case by simp
next
  case (Cons x xs)
  show ?case
  proof (cases "strrchr xs c")
    case None
    with Cons.prems have "i = 0" "x = c" by (auto split: if_splits)
    moreover from None have "c \<notin> set xs" by (simp add: strrchr_None)
    ultimately show ?thesis by simp
  next
    case (Some j)
    with Cons.prems have "i = Suc j" by simp
    with Cons.IH [OF Some] show ?thesis by simp
  qed
qed

lemma after_last_slash_drop:
  assumes "i < length t" "t ! i = CHR ''/''" "CHR ''/'' \<notin> set (drop (Suc i) t)"
  shows "after_last_slash t = drop (Suc i) t"
proof -
  have t: "t = take i t @ CHR ''/'' # drop (Suc i) t"
    using assms(1,2) by (metis id_take_nth_drop)
  have "rev t = rev (drop (Suc i) t) @ CHR ''/'' # rev (take i t)"
    by (subst t) simp
  moreover have "\<forall>c\<in>set (rev (drop (Suc i) t)). c \<noteq> CHR ''/''"
    using assms(3) by auto
  ultimately have "takeWhile (\<lambda>c. c \<noteq> CHR ''/'') (rev t) = rev (drop (Suc i) t)"
    by (simp add: takeWhile_tail)
  then show ?thesis by (simp add: after_last_slash_def)
qed

lemma last_slash_iff:
  assumes "i < length t" "t ! i = c" "c \<notin> set (drop (Suc i) t)"
  shows "Suc i < length t \<longleftrightarrow> last t \<noteq> c"
proof (cases "Suc i < length t")
  case True
  then have "drop (Suc i) t \<noteq> []" by simp
  then have "last t \<in> set (drop (Suc i) t)"
    by (metis last_drop last_in_set True)
  with assms(3) True show ?thesis by auto
next
  case False
  with assms(1) have "i = length t - 1" by simp
  with assms(1,2) have "last t = c" 
    by (metis last_conv_nth gr_implies_not0 list.size(3))
  with False show ?thesis by simp
qed

lemma shorten_eq:
  "(if take 1 title = ''<''
    then (case strrchr title (CHR ''/'') of
            None \<Rightarrow> title
          | Some i \<Rightarrow> if Suc i < length title then drop (Suc i) title else title)
    else title) = kept_part title"
proof (cases "strrchr title (CHR ''/'')")
  case None
  then have "CHR ''/'' \<notin> set title" by (simp add: strrchr_None)
  with None show ?thesis by (simp add: kept_part_def)
next
  case (Some i)
  from strrchr_Some [OF Some] have i: "i < length title" "title ! i = CHR ''/''"
    "CHR ''/'' \<notin> set (drop (Suc i) title)" by auto
  from i(1,2) have "CHR ''/'' \<in> set title" by (metis nth_mem)
  then show ?thesis
    using Some last_slash_iff [OF i] after_last_slash_drop [OF i]
    by (simp add: kept_part_def)
qed

lemma occurs_at_Cons_Suc [simp]: "occurs_at (x # xs) n (Suc j) = occurs_at xs n j"
  by (simp add: occurs_at_def)

lemma strstr_Some:
  "strstr t n = Some i \<Longrightarrow> occurs_at t n i \<and> (\<forall>j<i. \<not> occurs_at t n j)"
proof (induction t arbitrary: i)
  case Nil
  then show ?case by (simp add: occurs_at_def split: if_splits)
next
  case (Cons x xs)
  show ?case
  proof (cases "take (length n) (x # xs) = n")
    case True
    with Cons.prems have "i = 0" by simp
    with True show ?thesis by (simp add: occurs_at_def)
  next
    case False
    with Cons.prems obtain k where k: "strstr xs n = Some k" "i = Suc k" by auto
    from Cons.IH [OF k(1)] have ih: "occurs_at xs n k" "\<forall>j<k. \<not> occurs_at xs n j" by auto
    have "\<not> occurs_at (x # xs) n j" if "j < i" for j
    proof (cases j)
      case 0
      with False show ?thesis by (simp add: occurs_at_def)
    next
      case (Suc j')
      with that k(2) ih(2) show ?thesis by simp
    qed
    with ih(1) k(2) show ?thesis by simp
  qed
qed

lemma strstr_None: "strstr t n = None \<Longrightarrow> j < length t \<Longrightarrow> \<not> occurs_at t n j"
proof (induction t arbitrary: j)
  case Nil
  then show ?case by simp
next
  case (Cons x xs)
  from Cons.prems(1) have a: "take (length n) (x # xs) \<noteq> n" and b: "strstr xs n = None"
    by (auto split: if_splits)
  show ?case
  proof (cases j)
    case 0
    with a show ?thesis by (simp add: occurs_at_def)
  next
    case (Suc j')
    with Cons.prems(2) Cons.IH [OF b, of j'] show ?thesis by simp
  qed
qed

lemma occurs_before_iff: "occurs_before t n k \<longleftrightarrow> (\<exists>j<k. occurs_at t n j)"
  by (auto simp: occurs_before_def list_ex_iff)

lemma ends_with_occurs:
  "n \<noteq> [] \<Longrightarrow> ends_with t n \<longleftrightarrow> length n \<le> length t \<and> occurs_at t n (length t - length n)"
  by (auto simp: ends_with_def occurs_at_def)

lemma strstr_final:
  assumes "n \<noteq> []" "ends_with t n" "\<not> occurs_before t n (length t - length n)"
  shows "strstr t n = Some (length t - length n)"
proof (cases "strstr t n")
  case None
  from assms(1,2) have "0 < length n" "length n \<le> length t"
    and o: "occurs_at t n (length t - length n)"
    by (auto simp: ends_with_occurs)
  then have "length t - length n < length t" by arith
  note this o
  with strstr_None [OF None] show ?thesis by blast
next
  case (Some i)
  from strstr_Some [OF Some] have i: "occurs_at t n i" "\<forall>j<i. \<not> occurs_at t n j" by auto
  from assms(1,2) have "occurs_at t n (length t - length n)" by (simp add: ends_with_occurs)
  with i(2) have "\<not> length t - length n < i" by blast
  moreover from assms(3) i(1) have "\<not> i < length t - length n"
    by (auto simp: occurs_before_iff)
  ultimately show ?thesis using Some by simp
qed

lemma strstr_absent:
  assumes "n \<noteq> []" "\<not> occurs_before t n (length t)"
  shows "strstr t n = None"
proof (cases "strstr t n")
  case None then show ?thesis .
next
  case (Some i)
  from strstr_Some [OF Some] have i: "occurs_at t n i" by simp
  have "i < length t"
  proof (rule ccontr)
    assume "\<not> i < length t"
    then have "drop i t = []" by simp
    with i assms(1) show False by (auto simp: occurs_at_def)
  qed
  with i assms(2) show ?thesis by (auto simp: occurs_before_iff)
qed

lemma strstr_at_end:
  assumes "n \<noteq> []" "strstr t n = Some i" "int i = int (length t) - int (length n)"
  shows "ends_with t n"
proof -
  from assms(3) have "i = length t - length n" "length n \<le> length t" by auto
  with strstr_Some [OF assms(2)] assms(1) show ?thesis by (simp add: ends_with_occurs)
qed

lemma get_title_eq:
  "script_fu_script_get_title script =
     cut_off_ellipsis (kept_part (gimp_strip_uline (s_menu_label script)))"
  unfolding script_fu_script_get_title_def Let_def shorten_eq by simp

lemma length_dots: "length ''...'' = 3"
  by simp

lemma length_horizontal_ellipsis: "length horizontal_ellipsis = 3"
  by (simp add: horizontal_ellipsis_def)

lemma cut_off_ascii_ellipsis:
  assumes "ends_with t ''...''" "\<not> occurs_before t ''...'' (length t - 3)"
  shows "cut_off_ellipsis t = take (length t - 3) t"
proof -
  have "strstr t ''...'' = Some (length t - 3)"
    using strstr_final [of "''...''" t, unfolded length_dots] assms by blast
  moreover from assms(1) have "3 \<le> length t" by (simp add: ends_with_def)
  ultimately show ?thesis by (simp add: cut_off_ellipsis_def Let_def)
qed

lemma cut_off_unicode_ellipsis:
  assumes "ends_with t horizontal_ellipsis"
    "\<not> occurs_before t horizontal_ellipsis (length t - 3)"
    "\<not> occurs_before t ''...'' (length t)"
  shows "cut_off_ellipsis t = take (length t - 3) t"
proof -
  have ne: "horizontal_ellipsis \<noteq> []"
    by (simp add: horizontal_ellipsis_def)
  have "strstr t horizontal_ellipsis = Some (length t - 3)"
    using strstr_final [of horizontal_ellipsis t, unfolded length_horizontal_ellipsis]
      assms(1,2) ne by blast
  moreover have "strstr t ''...'' = None"
    using strstr_absent [of "''...''" t] assms(3) by blast
  moreover from assms(1) have "3 \<le> length t"
    by (simp add: ends_with_def length_horizontal_ellipsis)
  ultimately show ?thesis by (simp add: cut_off_ellipsis_def Let_def)
qed

lemma cut_off_nothing:
  assumes "\<not> ends_with t ''...''" "\<not> ends_with t horizontal_ellipsis"
  shows "cut_off_ellipsis t = t"
proof -
  have ne: "horizontal_ellipsis \<noteq> []"
    by (simp add: horizontal_ellipsis_def)
  have a: "int i \<noteq> int (length t) - 3" if "strstr t ''...'' = Some i" for i
    using strstr_at_end [of "''...''" t i, unfolded length_dots] assms(1) that by auto
  have b: "int i \<noteq> int (length t) - 3" if "strstr t horizontal_ellipsis = Some i" for i
    using strstr_at_end [of horizontal_ellipsis t i, unfolded length_horizontal_ellipsis]
      assms(2) ne that by auto
  show ?thesis
  proof (cases "strstr t ''...''")
    case (Some i)
    with a [OF Some] show ?thesis by (simp add: cut_off_ellipsis_def Let_def)
  next
    case None
    show ?thesis
    proof (cases "strstr t horizontal_ellipsis")
      case n2: None
      with None show ?thesis by (simp add: cut_off_ellipsis_def Let_def)
    next
      case (Some i)
      with None b [OF Some] show ?thesis by (simp add: cut_off_ellipsis_def Let_def)
    qed
  qed
qed

lemmas title_eval =
  script_fu_script_get_title_def cut_off_ellipsis_def script_with_args_def
  gimp_strip_uline_def horizontal_ellipsis_def Let_def

lemma gaussian_blur_title: "script_fu_script_get_title gaussian_blur_script = ''Gaussian Blur''"
  by (simp add: gaussian_blur_script_def title_eval)

lemma trailing_slash_title: "script_fu_script_get_title trailing_slash_script = ''<Image>/''"
  by (simp add: trailing_slash_script_def title_eval)

lemma trailing_slash_spec_title: "spec_title trailing_slash_script = []"
  by (simp add: spec_title_def spec_shorten_def spec_cut_ellipsis_def after_last_slash_def
      ends_with_def trailing_slash_script_def script_with_args_def gimp_strip_uline_def
      horizontal_ellipsis_def)

text \<open>
  A title with an earlier \<open>...\<close> keeps its final one: \<open>strstr\<close> finds the first
  occurrence, which is not at the end.
\<close>

lemma two_ellipses_title: "script_fu_script_get_title two_ellipses_script = ''Save... as...''"
  by (simp add: two_ellipses_script_def title_eval)

text \<open>
  C7, as the spec states it (\<open>spec_title\<close>: after stripping, a title that begins with
  \<open><\<close> and contains a slash is cut to what follows its last slash, then a final
  ellipsis is removed): for the menu label \<open><Image>/\<close> the spec's title is empty, while
  \<open>script_fu_script_get_title\<close> returns \<open><Image>/\<close>, because the code shortens only when
  something follows the last slash (\<open>tmp[1]\<close>).
\<close>

theorem get_title_trailing_slash_differs:
  "script_fu_script_get_title trailing_slash_script \<noteq> spec_title trailing_slash_script"
  by (simp add: trailing_slash_title trailing_slash_spec_title)

text \<open>
  C7, as the code has it. Let \<open>t\<close> be the stripped menu label, cut to what follows its
  last slash when it begins with \<open><\<close> and its last slash is not its last character
  (\<open>kept_part\<close>). If \<open>t\<close> ends with \<open>...\<close> and has no \<open>...\<close> before, or has no \<open>...\<close> at
  all and ends with U+2026 with no U+2026 before, the title is \<open>t\<close> without its last three
  bytes; if \<open>t\<close> ends with neither, the title is \<open>t\<close>. The menu label
  \<open><Image>/Filters/Blur/Gaussian Blur...\<close> gives the title \<open>Gaussian Blur\<close>.
\<close>

theorem get_title_kept_part_and_final_ellipsis:
  "(ends_with (kept_part (gimp_strip_uline (s_menu_label script))) ''...'' \<and>
    \<not> occurs_before (kept_part (gimp_strip_uline (s_menu_label script))) ''...''
        (length (kept_part (gimp_strip_uline (s_menu_label script))) - 3) \<longrightarrow>
    script_fu_script_get_title script =
      take (length (kept_part (gimp_strip_uline (s_menu_label script))) - 3)
        (kept_part (gimp_strip_uline (s_menu_label script)))) \<and>
   (ends_with (kept_part (gimp_strip_uline (s_menu_label script))) horizontal_ellipsis \<and>
    \<not> occurs_before (kept_part (gimp_strip_uline (s_menu_label script))) horizontal_ellipsis
        (length (kept_part (gimp_strip_uline (s_menu_label script))) - 3) \<and>
    \<not> occurs_before (kept_part (gimp_strip_uline (s_menu_label script))) ''...''
        (length (kept_part (gimp_strip_uline (s_menu_label script)))) \<longrightarrow>
    script_fu_script_get_title script =
      take (length (kept_part (gimp_strip_uline (s_menu_label script))) - 3)
        (kept_part (gimp_strip_uline (s_menu_label script)))) \<and>
   (\<not> ends_with (kept_part (gimp_strip_uline (s_menu_label script))) ''...'' \<and>
    \<not> ends_with (kept_part (gimp_strip_uline (s_menu_label script))) horizontal_ellipsis \<longrightarrow>
    script_fu_script_get_title script = kept_part (gimp_strip_uline (s_menu_label script))) \<and>
   script_fu_script_get_title gaussian_blur_script = ''Gaussian Blur''"
  using cut_off_ascii_ellipsis cut_off_unicode_ellipsis cut_off_nothing
  by (simp add: get_title_eq gaussian_blur_title [unfolded get_title_eq])

lemmas kept_part_eval =
  kept_part_def after_last_slash_def ends_with_def occurs_before_def occurs_at_def
  script_with_args_def gimp_strip_uline_def horizontal_ellipsis_def

theorem get_title_kept_part_and_final_ellipsis_witness:
  "kept_part (gimp_strip_uline (s_menu_label gaussian_blur_script)) = ''Gaussian Blur...'' \<and>
   script_fu_script_get_title gaussian_blur_script = ''Gaussian Blur'' \<and>
   kept_part (gimp_strip_uline (s_menu_label unicode_ellipsis_script)) =
     ''Blur'' @ horizontal_ellipsis \<and>
   script_fu_script_get_title unicode_ellipsis_script = ''Blur'' \<and>
   kept_part (gimp_strip_uline (s_menu_label three_images)) = ''Three'' \<and>
   script_fu_script_get_title three_images = ''Three''"
proof -
  have a: "kept_part (gimp_strip_uline (s_menu_label gaussian_blur_script)) = ''Gaussian Blur...''"
    by (simp add: gaussian_blur_script_def kept_part_eval)
  have b: "kept_part (gimp_strip_uline (s_menu_label unicode_ellipsis_script)) =
      ''Blur'' @ horizontal_ellipsis"
    by (simp add: unicode_ellipsis_script_def kept_part_eval)
  have c: "kept_part (gimp_strip_uline (s_menu_label three_images)) = ''Three''"
    by (simp add: three_images_def kept_part_eval)
  have "script_fu_script_get_title gaussian_blur_script = ''Gaussian Blur''"
    using get_title_kept_part_and_final_ellipsis [of gaussian_blur_script]
    unfolding a by (simp add: kept_part_eval)
  moreover have "script_fu_script_get_title unicode_ellipsis_script = ''Blur''"
    using get_title_kept_part_and_final_ellipsis [of unicode_ellipsis_script]
    unfolding b by (simp add: kept_part_eval)
  moreover have "script_fu_script_get_title three_images = ''Three''"
    using get_title_kept_part_and_final_ellipsis [of three_images]
    unfolding c by (simp add: kept_part_eval)
  ultimately show ?thesis using a b c by simp
qed

lemma get_command_loop_those:
  "i \<le> length (s_args script) \<Longrightarrow>
   get_command_loop script i s =
     map_option (\<lambda>ts. s @ spaced ts)
       (those (map command_token (drop i (s_args script))))"
proof (induction script i s rule: get_command_loop.induct)
  case (1 script i s)
  show ?case
  proof (cases "i < n_args script")
    case False
    have r: "get_command_loop script i s = Some s"
      using False by (subst get_command_loop.simps) simp
    from False 1(2) have "i = length (s_args script)" by (simp add: n_args_def)
    then show ?thesis unfolding r by simp
  next
    case True
    then have lt: "i < length (s_args script)" by (simp add: n_args_def)
    have d: "drop i (s_args script) = s_args script ! i # drop (Suc i) (s_args script)"
      using lt by (simp add: Cons_nth_drop_Suc)
    show ?thesis
    proof (cases "command_token (s_args script ! i)")
      case None
      have r: "get_command_loop script i s = None"
        using True None by (subst get_command_loop.simps) simp
      show ?thesis unfolding r using None by (simp add: d)
    next
      case (Some t)
      have r: "get_command_loop script i s = get_command_loop script (Suc i) (s @ '' '' @ t)"
        using True Some by (subst get_command_loop.simps) simp
      have ih: "get_command_loop script (Suc i) (s @ '' '' @ t) =
          map_option (\<lambda>ts. (s @ '' '' @ t) @ spaced ts)
            (those (map command_token (drop (Suc i) (s_args script))))"
        using 1(1) [OF True Some] lt by simp
      show ?thesis
        unfolding r ih using Some by (simp add: d option.map_comp comp_def)
    qed
  qed
qed

lemma get_command_eq:
  "script_fu_script_get_command script =
     map_option (call_text (s_name script)) (command_tokens script)"
  by (simp add: script_fu_script_get_command_def get_command_loop_those command_tokens_def
      call_text_def split: option.splits)

lemma from_params_loop_tokens:
  "i \<le> length (s_args script) \<Longrightarrow>
   get_command_from_params_loop script args i s =
     map_option (\<lambda>ts. s @ spaced ts)
       (param_tokens (drop i (map a_type (s_args script))) (drop (Suc i) args))"
proof (induction script args i s rule: get_command_from_params_loop.induct)
  case (1 script args i s)
  show ?case
  proof (cases "i < n_args script")
    case False
    have r: "get_command_from_params_loop script args i s = Some s"
      using False by (subst get_command_from_params_loop.simps) simp
    from False 1(2) have "i = length (s_args script)" by (simp add: n_args_def)
    then show ?thesis unfolding r by simp
  next
    case True
    then have lt: "i < length (s_args script)" by (simp add: n_args_def)
    have d: "drop i (map a_type (s_args script)) =
        a_type (s_args script ! i) # drop (Suc i) (map a_type (s_args script))"
      using lt by (simp add: Cons_nth_drop_Suc [symmetric])
    show ?thesis
    proof (cases "i + 1 < length args")
      case False
      have r: "get_command_from_params_loop script args i s = None"
        using True False by (subst get_command_from_params_loop.simps) simp
      from False have "drop (Suc i) args = []" by simp
      then show ?thesis unfolding r d by simp
    next
      case inb: True
      have e: "drop (Suc i) args = args ! (i + 1) # drop (Suc (Suc i)) args"
        using inb by (simp add: Cons_nth_drop_Suc)
      show ?thesis
      proof (cases "param_token (a_type (s_args script ! i)) (args ! (i + 1))")
        case None
        have r: "get_command_from_params_loop script args i s = None"
          using True inb None by (subst get_command_from_params_loop.simps) simp
        show ?thesis unfolding r d e using None by simp
      next
        case (Some t)
        have r: "get_command_from_params_loop script args i s =
            get_command_from_params_loop script args (Suc i) (s @ '' '' @ t)"
          using True inb Some by (subst get_command_from_params_loop.simps) simp
        have ih: "get_command_from_params_loop script args (Suc i) (s @ '' '' @ t) =
            map_option (\<lambda>ts. (s @ '' '' @ t) @ spaced ts)
              (param_tokens (drop (Suc i) (map a_type (s_args script))) (drop (Suc (Suc i)) args))"
          using 1(1) [OF True inb Some] lt by simp
        show ?thesis
          unfolding r ih d e using Some by (simp add: option.map_comp comp_def)
      qed
    qed
  qed
qed

lemma from_params_eq:
  "script_fu_script_get_command_from_params script args =
     map_option (call_text (s_name script)) (param_tokens (map a_type (s_args script)) (tl args))"
  by (simp add: script_fu_script_get_command_from_params_def from_params_loop_tokens
      call_text_def drop_Suc split: option.splits)

lemma command_token_wf: "wf_arg a \<Longrightarrow> \<exists>t. command_token a = Some t"
  by (cases "a_type a"; cases "a_value a") (auto simp: wf_arg_def command_token_def)

lemma those_map_Some:
  "list_all (\<lambda>a. \<exists>t. f a = Some t) xs \<Longrightarrow>
   \<exists>ts. those (map f xs) = Some ts \<and> length ts = length xs \<and>
        (\<forall>i<length xs. f (xs ! i) = Some (ts ! i))"
proof (induction xs)
  case Nil
  then show ?case by simp
next
  case (Cons a xs)
  then obtain t ts where t: "f a = Some t" and ts: "those (map f xs) = Some ts"
    "length ts = length xs" "\<forall>i<length xs. f (xs ! i) = Some (ts ! i)"
    by auto
  have "\<forall>i<length (a # xs). f ((a # xs) ! i) = Some ((t # ts) ! i)"
    using t ts(3) by (auto simp: nth_Cons split: nat.splits)
  then show ?case using t ts by simp
qed

lemma command_tokens_wf:
  assumes "wf_script script"
  shows "\<exists>ts. command_tokens script = Some ts \<and> length ts = n_args script \<and>
           (\<forall>i<n_args script. command_token (s_args script ! i) = Some (ts ! i))"
proof -
  from assms have "list_all (\<lambda>a. \<exists>t. command_token a = Some t) (s_args script)"
    by (auto simp: wf_script_def list_all_iff command_token_wf)
  from those_map_Some [OF this] show ?thesis
    by (simp add: command_tokens_def n_args_def)
qed

lemma param_token_fits: "value_fits t v \<Longrightarrow> \<exists>x. param_token t v = Some x"
  by (cases v; cases t) (auto simp: param_token_def)

lemma param_tokens_fit:
  "list_all2 value_fits ts vs \<Longrightarrow>
   \<exists>us. param_tokens ts vs = Some us \<and> length us = length ts \<and>
        (\<forall>i<length ts. param_token (ts ! i) (vs ! i) = Some (us ! i))"
proof (induction ts vs rule: list_all2_induct)
  case Nil
  then show ?case by simp
next
  case (Cons t ts v vs)
  from param_token_fits [OF Cons.hyps(1)] obtain x where x: "param_token t v = Some x" by blast
  from Cons.IH obtain us where us: "param_tokens ts vs = Some us" "length us = length ts"
    "\<forall>i<length ts. param_token (ts ! i) (vs ! i) = Some (us ! i)" by blast
  have "\<forall>i<length (t # ts). param_token ((t # ts) ! i) ((v # vs) ! i) = Some ((x # us) ! i)"
    using x us(3) by (auto simp: nth_Cons split: nat.splits)
  then show ?case using x us by simp
qed

lemma dtostr_hundred: "g_ascii_dtostr (Gdouble False 100 0) = ''100''"
  by (simp add: format_eval)

lemma circle_from_params:
  "script_fu_script_get_command_from_params circle_brush_script circle_brush_invocation =
     Some (''(script-fu-sample '' @ quoted ''Circle'' @ '')'')"
  by (simp add: from_params_eq circle_brush_script_def circle_brush_invocation_def
      script_with_args_def brush_arg_def param_token_def call_text_def quoted_def)

lemma circle_get_command:
  "script_fu_script_get_command circle_brush_script =
     Some (''(script-fu-sample '' @ [CHR 0x27] @ ''('' @ quoted ''Circle'' @ '' 100 20 0))'')"
  by (simp add: get_command_eq command_tokens_def circle_brush_script_def
      script_with_args_def brush_arg_def command_token_def call_text_def quoted_def
      dtostr_hundred printf_d_def string_of_nat.simps digit_char_def)

lemma quote_get_command:
  "script_fu_script_get_command quote_brush_script =
     Some (''(script-fu-sample '' @ [CHR 0x27] @ ''('' @ quoted (''a'' @ [DQUOTE] @ ''b'') @
           '' 100 20 0))'')"
  by (simp add: get_command_eq command_tokens_def quote_brush_script_def
      script_with_args_def brush_arg_def command_token_def call_text_def quoted_def
      dtostr_hundred printf_d_def string_of_nat.simps digit_char_def)

text \<open>
  C6, as the spec states it (\<open>spec_brush_token\<close>: the list of the escaped, quoted name,
  the opacity, the spacing and the paint mode). The invocation of a script with one
  Brush argument holds the brush's name only, and
  \<open>script_fu_script_get_command_from_params\<close> writes the quoted name, which is the spec's
  list for no opacity, spacing and paint mode; and \<open>script_fu_script_get_command\<close> writes
  the brush name \<open>a"b\<close> as it is, not escaped.
\<close>

theorem brush_token_not_as_specified:
  "(\<forall>opacity spacing paint_mode.
      script_fu_script_get_command_from_params circle_brush_script circle_brush_invocation \<noteq>
        Some (call_text (s_name circle_brush_script)
                [spec_brush_token ''Circle'' opacity spacing paint_mode])) \<and>
   script_fu_script_get_command quote_brush_script \<noteq>
     Some (call_text (s_name quote_brush_script)
             [spec_brush_token (''a'' @ [DQUOTE] @ ''b'') (Gdouble False 100 0) 20 0])"
  unfolding circle_from_params quote_get_command
  by (simp add: call_text_def spec_brush_token_def quoted_def circle_brush_script_def
      quote_brush_script_def script_with_args_def)

text \<open>
  C6, as the code has it. For a script that keeps the invariant of the data model and an
  invocation that fits it, both functions return the call text of one token per
  argument, and at the position of a Brush argument:
  \<open>script_fu_script_get_command\<close> has the list of the double-quoted name, inserted as it
  is, the opacity written by \<open>g_ascii_dtostr\<close>, and the spacing and the paint mode as
  decimal integers (\<open>brush_list_token\<close>);
  \<open>script_fu_script_get_command_from_params\<close> has the double-quoted text of the
  invocation's value, inserted as it is, and nothing else.
\<close>

theorem brush_token_in_both_renderings:
  assumes "wf_script script" and "invocation_fits script args"
    and "i < n_args script" and "a_type (s_args script ! i) = SF_BRUSH"
  shows "\<exists>b ts name us.
           sfa_brush (a_value (s_args script ! i)) = Some b \<and>
           command_tokens script = Some ts \<and> length ts = n_args script \<and>
           script_fu_script_get_command script = Some (call_text (s_name script) ts) \<and>
           ts ! i = brush_list_token b \<and>
           g_value_get_string (args ! Suc i) = Some name \<and>
           param_tokens (map a_type (s_args script)) (tl args) = Some us \<and>
           length us = n_args script \<and>
           script_fu_script_get_command_from_params script args =
             Some (call_text (s_name script) us) \<and>
           us ! i = quoted name"
proof -
  from command_tokens_wf [OF assms(1)] obtain ts where ts: "command_tokens script = Some ts"
    "length ts = n_args script"
    "\<forall>i<n_args script. command_token (s_args script ! i) = Some (ts ! i)"
    by blast
  from assms(1,3) have "wf_arg (s_args script ! i)"
    by (simp add: wf_script_def n_args_def list_all_length)
  with assms(4) obtain b where b: "a_value (s_args script ! i) = SFA_brush b"
    by (cases "a_value (s_args script ! i)") (auto simp: wf_arg_def)
  with assms(4) have "command_token (s_args script ! i) = Some (brush_list_token b)"
    by (simp add: command_token_def brush_list_token_def)
  with ts(3) assms(3) have ti: "ts ! i = brush_list_token b" by simp
  from assms(2) have fits: "list_all2 value_fits (map a_type (s_args script)) (tl args)"
    and ne: "args \<noteq> []"
    by (simp_all add: invocation_fits_def)
  from param_tokens_fit [OF fits] obtain us where
    us: "param_tokens (map a_type (s_args script)) (tl args) = Some us"
    "length us = n_args script"
    "\<forall>i<length (map a_type (s_args script)).
       param_token (map a_type (s_args script) ! i) (tl args ! i) = Some (us ! i)"
    by (auto simp: n_args_def)
  from fits have "length (map a_type (s_args script)) = length (tl args)"
    by (rule list_all2_lengthD)
  then have len: "length (tl args) = n_args script"
    by (simp add: n_args_def)
  with assms(3) have nth: "tl args ! i = args ! Suc i"
    by (simp add: nth_tl)
  from fits assms(3,4) have "value_fits SF_BRUSH (args ! Suc i)"
    using list_all2_nthD [OF fits, of i] nth by (simp add: n_args_def)
  then obtain name where name: "args ! Suc i = GV_string name"
    by (cases "args ! Suc i") auto
  from us(3) assms(3) have
    "param_token (map a_type (s_args script) ! i) (tl args ! i) = Some (us ! i)"
    by (simp add: n_args_def)
  with assms(3,4) nth name have "param_token SF_BRUSH (GV_string name) = Some (us ! i)"
    by (simp add: n_args_def)
  then have ui: "us ! i = quoted name"
    by (simp add: param_token_def)
  show ?thesis
    using b ts(1,2) ti name us(1,2) ui
    by (simp add: get_command_eq from_params_eq)
qed

theorem brush_token_in_both_renderings_witness:
  "wf_script circle_brush_script \<and>
   invocation_fits circle_brush_script circle_brush_invocation \<and>
   (\<exists>b ts name us.
      sfa_brush (a_value (s_args circle_brush_script ! 0)) = Some b \<and>
      script_fu_script_get_command circle_brush_script =
        Some (call_text (s_name circle_brush_script) ts) \<and>
      ts ! 0 = brush_list_token b \<and>
      g_value_get_string (circle_brush_invocation ! Suc 0) = Some name \<and>
      script_fu_script_get_command_from_params circle_brush_script circle_brush_invocation =
        Some (call_text (s_name circle_brush_script) us) \<and>
      us ! 0 = quoted name) \<and>
   script_fu_script_get_command circle_brush_script =
     Some (''(script-fu-sample '' @ [CHR 0x27] @ ''('' @ quoted ''Circle'' @ '' 100 20 0))'') \<and>
   script_fu_script_get_command_from_params circle_brush_script circle_brush_invocation =
     Some (''(script-fu-sample '' @ quoted ''Circle'' @ '')'')"
proof -
  have w: "wf_script circle_brush_script"
    by (simp add: wf_script_def wf_arg_def circle_brush_script_def script_with_args_def
        brush_arg_def)
  have f: "invocation_fits circle_brush_script circle_brush_invocation"
    by (simp add: invocation_fits_def circle_brush_script_def script_with_args_def
        brush_arg_def circle_brush_invocation_def)
  have i: "0 < n_args circle_brush_script"
    by (simp add: n_args_def circle_brush_script_def script_with_args_def)
  have t: "a_type (s_args circle_brush_script ! 0) = SF_BRUSH"
    by (simp add: circle_brush_script_def script_with_args_def brush_arg_def)
  from brush_token_in_both_renderings [OF w f i t] w f circle_get_command circle_from_params
  show ?thesis by blast
qed

section \<open>Tokens of the serialized command\<close>

lemma free_of_append:
  "free_of x st (a @ b) = (free_of x st a \<and> free_of x (foldl scan_step st a) b)"
  by (induction a arbitrary: st) auto

lemma split_tokens_append:
  "free_of (CHR '' '') st a \<Longrightarrow>
   split_tokens st cur (a @ b) = split_tokens (foldl scan_step st a) (cur @ a) b"
  by (induction a arbitrary: st cur) (auto split: if_splits)

lemma split_tokens_spaced:
  "list_all single_token ts \<Longrightarrow>
   split_tokens (0, Plain) cur (spaced ts) = (if cur = [] then [] else [cur]) @ ts"
proof (induction ts arbitrary: cur)
  case Nil
  then show ?case by simp
next
  case (Cons t ts)
  from Cons.prems have "single_token t" and ts: "list_all single_token ts" by simp_all
  then have t: "t \<noteq> []" "free_of (CHR '' '') (0, Plain) t"
    "foldl scan_step (0, Plain) t = (0, Plain)"
    by (simp_all add: single_token_def closed_text_def)
  have "split_tokens (0, Plain) [] (t @ spaced ts) = split_tokens (0, Plain) t (spaced ts)"
    using split_tokens_append [OF t(2), of "[]"] t(3) by simp
  also have "\<dots> = [t] @ ts" using Cons.IH [OF ts, of t] t(1) by simp
  finally show ?case by simp
qed

lemma closed_spaced: "list_all single_token ts \<Longrightarrow> closed_text (spaced ts)"
proof (induction ts)
  case Nil
  then show ?case by (simp add: closed_text_def)
next
  case (Cons t ts)
  then have t: "closed_text t" and ih: "closed_text (spaced ts)"
    by (simp_all add: single_token_def)
  then show ?case by (simp add: closed_text_def free_of_append)
qed

lemma call_text_tokens:
  assumes "single_token name" "list_all single_token ts"
  shows "top_level_tokens (call_text name ts) = Some (name # ts)"
    and "single_call_expression (call_text name ts)"
proof -
  let ?body = "name @ spaced ts"
  have c: "call_text name ts = CHR ''('' # (?body @ '')'')" by (simp add: call_text_def)
  from assms(1) have n: "name \<noteq> []" "free_of (CHR '' '') (0, Plain) name"
    "foldl scan_step (0, Plain) name = (0, Plain)" "free_of (CHR '')'') (0, Plain) name"
    by (simp_all add: single_token_def closed_text_def)
  have "split_tokens (0, Plain) [] ?body = name # ts"
    using split_tokens_append [OF n(2), of "[]"] n(1,3) split_tokens_spaced [OF assms(2), of name]
    by simp
  then show "top_level_tokens (call_text name ts) = Some (name # ts)"
    unfolding c by (simp add: top_level_tokens_def butlast_append)
  have "closed_text ?body"
    using closed_spaced [OF assms(2)] n by (simp add: closed_text_def free_of_append)
  then show "single_call_expression (call_text name ts)"
    unfolding c by (simp add: single_call_expression_def butlast_append)
qed

lemma plain_text_scan:
  assumes "DQUOTE \<notin> set t" "CHR ''('' \<notin> set t" "CHR '')'' \<notin> set t"
  shows "foldl scan_step (d, Plain) t = (d, Plain)" and "free_of (CHR '')'') (d, Plain) t"
    and "CHR '' '' \<notin> set t \<Longrightarrow> free_of (CHR '' '') (d, Plain) t"
    and "0 < d \<Longrightarrow> free_of x (d, Plain) t"
  using assms by (induction t) auto

lemma string_body_scan:
  "foldl scan_step (d, InString) (script_fu_strescape t) = (d, InString)"
  "free_of x (d, InString) (script_fu_strescape t)"
  by (induction t) auto

lemma quoted_escaped_scan:
  "foldl scan_step (d, Plain) (quoted (script_fu_strescape t)) = (d, Plain)"
  "free_of x (d, Plain) (quoted (script_fu_strescape t)) = (\<not> (d = 0 \<and> x = DQUOTE))"
  by (simp_all add: quoted_def string_body_scan free_of_append)

lemma single_token_quoted_escaped: "single_token (quoted (script_fu_strescape t))"
  by (simp add: single_token_def closed_text_def quoted_escaped_scan) (simp add: quoted_def)

lemma number_chars_mem:
  "CHR ''0'' \<in> number_chars" "CHR ''.'' \<in> number_chars" "CHR ''-'' \<in> number_chars"
  "CHR ''+'' \<in> number_chars" "CHR ''e'' \<in> number_chars"
  by (simp_all add: number_chars_def)

lemma digit_char_number: "n < 10 \<Longrightarrow> digit_char n \<in> number_chars"
proof -
  assume "n < 10"
  then have "''0123456789'' ! n \<in> set ''0123456789''" by (intro nth_mem) simp
  then show ?thesis by (auto simp: digit_char_def number_chars_def)
qed

lemma string_of_nat_number:
  "set (string_of_nat n) \<subseteq> number_chars \<and> string_of_nat n \<noteq> []"
proof (induction n rule: string_of_nat.induct)
  case (1 n)
  show ?case
  proof (cases "n < 10")
    case True
    then have "string_of_nat n = [digit_char n]" by (subst string_of_nat.simps) simp
    with digit_char_number [OF True] show ?thesis by simp
  next
    case False
    then have e: "string_of_nat n = string_of_nat (n div 10) @ [digit_char (n mod 10)]"
      by (subst string_of_nat.simps) simp
    have "n mod 10 < 10" by simp
    from digit_char_number [OF this] 1 [OF False] show ?thesis unfolding e by simp
  qed
qed

lemma printf_d_number: "set (printf_d i) \<subseteq> number_chars \<and> printf_d i \<noteq> []"
  using string_of_nat_number [of "nat i"] string_of_nat_number [of "nat (- i)"]
  by (simp add: printf_d_def number_chars_mem)

lemma strip_trailing_zeros_subset: "set (strip_trailing_zeros s) \<subseteq> set s"
  by (auto simp: strip_trailing_zeros_def dest: set_dropWhileD)

lemma fraction_part_number:
  assumes "set ds \<subseteq> number_chars"
  shows "set (fraction_part ds) \<subseteq> number_chars"
proof -
  from assms strip_trailing_zeros_subset [of ds]
  have "set (strip_trailing_zeros ds) \<subseteq> number_chars" by blast
  then show ?thesis by (simp add: fraction_part_def Let_def number_chars_mem)
qed

lemma exponent_part_number:
  "set (exponent_part x) \<subseteq> number_chars \<and> exponent_part x \<noteq> []"
  using string_of_nat_number [of "nat \<bar>x\<bar>"]
  by (auto simp: exponent_part_def number_chars_mem)

lemma format_g17_number:
  "set (format_g17 num den) \<subseteq> number_chars \<and> format_g17 num den \<noteq> []"
proof -
  define x0 where "x0 = decimal_exponent num den"
  define n0 where "n0 = scaled17 num den x0"
  define n where "n = (if n0 = 10 ^ 17 then 10 ^ 16 else n0)"
  define x where "x = (if n0 = 10 ^ 17 then x0 + 1 else x0)"
  define ds where "ds = string_of_nat n"
  have ds: "set ds \<subseteq> number_chars" "ds \<noteq> []"
    using string_of_nat_number [of n] by (simp_all add: ds_def)
  have tk: "set (take k ds) \<subseteq> number_chars" for k
    using ds(1) set_take_subset [of k ds] by blast
  have dr: "set (fraction_part (drop k ds)) \<subseteq> number_chars" for k
  proof (rule fraction_part_number)
    show "set (drop k ds) \<subseteq> number_chars"
      using ds(1) set_drop_subset [of k ds] by blast
  qed
  have st: "set (strip_trailing_zeros ds) \<subseteq> number_chars"
    using ds(1) strip_trailing_zeros_subset [of ds] by blast
  have ne: "take (Suc k) ds \<noteq> []" for k
    using ds(2) by (cases ds) simp_all
  have f: "format_g17 num den =
      (if x < - 4 \<or> 17 \<le> x
       then take 1 ds @ fraction_part (drop 1 ds) @ exponent_part x
       else if 0 \<le> x
       then take (nat x + 1) ds @ fraction_part (drop (nat x + 1) ds)
       else ''0.'' @ replicate (nat (- x - 1)) (CHR ''0'') @ strip_trailing_zeros ds)"
    by (simp add: format_g17_def Let_def x0_def n0_def n_def x_def ds_def)
  consider (sci) "x < - 4 \<or> 17 \<le> x" | (fixed) "\<not> (x < - 4 \<or> 17 \<le> x)" "0 \<le> x"
    | (small) "\<not> (x < - 4 \<or> 17 \<le> x)" "\<not> 0 \<le> x"
    by blast
  then show ?thesis
  proof cases
    case sci
    then have "format_g17 num den = take 1 ds @ fraction_part (drop 1 ds) @ exponent_part x"
      unfolding f by simp
    then show ?thesis using tk [of 1] dr [of 1] exponent_part_number [of x] by simp
  next
    case fixed
    then have "format_g17 num den = take (Suc (nat x)) ds @ fraction_part (drop (Suc (nat x)) ds)"
      unfolding f by simp
    then show ?thesis using tk [of "Suc (nat x)"] dr [of "Suc (nat x)"] ne [of "nat x"] by simp
  next
    case small
    then have "format_g17 num den =
        ''0.'' @ replicate (nat (- x - 1)) (CHR ''0'') @ strip_trailing_zeros ds"
      unfolding f by simp
    then show ?thesis using st by (auto simp: number_chars_mem)
  qed
qed

lemma g_ascii_dtostr_number:
  "set (g_ascii_dtostr d) \<subseteq> number_chars \<and> g_ascii_dtostr d \<noteq> []"
proof (cases d)
  case (Gdouble neg m e)
  show ?thesis
    unfolding Gdouble g_ascii_dtostr.simps
    using format_g17_number [of "m * 2 ^ nat e" 1] format_g17_number [of m "2 ^ nat (- e)"]
    by (simp add: number_chars_mem)
qed

lemma number_chars_plain:
  assumes "set t \<subseteq> number_chars"
  shows "DQUOTE \<notin> set t" "CHR ''('' \<notin> set t" "CHR '')'' \<notin> set t" "CHR '' '' \<notin> set t"
  using assms by (auto simp: number_chars_def)

lemma single_token_number:
  assumes "set t \<subseteq> number_chars \<and> t \<noteq> []"
  shows "single_token t"
proof -
  from assms have s: "set t \<subseteq> number_chars" and ne: "t \<noteq> []" by simp_all
  note p = number_chars_plain [OF s]
  from plain_text_scan [OF p(1,2,3), of 0] p(4) ne show ?thesis
    by (simp add: single_token_def closed_text_def)
qed

lemma single_token_color: "single_token (color_token c)"
proof -
  obtain r g b where c: "gimp_rgb_get_uchar c = (r, g, b)" by (cases "gimp_rgb_get_uchar c")
  define inner where
    "inner = printf_d (uint r) @ '' '' @ printf_d (uint g) @ '' '' @ printf_d (uint b)"
  have t: "color_token c = [CHR 0x27, CHR ''(''] @ inner @ '')''"
    by (simp add: color_token_def c inner_def)
  note r = number_chars_plain [OF conjunct1 [OF printf_d_number [of "uint r"]]]
  note g = number_chars_plain [OF conjunct1 [OF printf_d_number [of "uint g"]]]
  note b = number_chars_plain [OF conjunct1 [OF printf_d_number [of "uint b"]]]
  have "DQUOTE \<notin> set inner" "CHR ''('' \<notin> set inner" "CHR '')'' \<notin> set inner"
    using r g b by (simp_all add: inner_def)
  from plain_text_scan [OF this, of 1] have
    i: "foldl scan_step (Suc 0, Plain) inner = (Suc 0, Plain)"
    "\<And>x. free_of x (Suc 0, Plain) inner" by simp_all
  show ?thesis
    unfolding t single_token_def closed_text_def
    by (simp add: free_of_append i)
qed

lemma single_token_TRUE_FALSE: "single_token ''TRUE''" "single_token ''FALSE''"
  by (simp_all add: single_token_def closed_text_def)

lemma safe_token_single:
  assumes "wf_arg a" "\<not> inserted_verbatim (a_type a)"
  shows "token_is_single a"
proof -
  note n = single_token_number [OF printf_d_number] single_token_number [OF g_ascii_dtostr_number]
    single_token_color single_token_quoted_escaped single_token_TRUE_FALSE
  show ?thesis
    using assms
    by (cases "a_type a"; cases "a_value a")
       (simp_all add: wf_arg_def token_is_single_def command_token_def n)
qed

lemma wf_bind_id:
  assumes "wf_script script" "slot_matches script args t n"
  shows "wf_script (bind_id script args n)"
proof -
  from assms(2) have n: "n < length (s_args script)" and t: "a_type (s_args script ! n) = t"
    and i: "identity_gtype t \<noteq> None"
    by (auto simp: slot_matches_def split: option.splits)
  from i have "is_identity t" by (cases t) simp_all
  with t have m: "stores_member (a_type (s_args script ! n)) (SFA_id v)" for v
    by (cases t) simp_all
  from assms(1) n have "wf_arg (s_args script ! n)"
    by (simp add: wf_script_def list_all_length)
  with m have u: "wf_arg ((s_args script ! n)\<lparr>a_value := SFA_id v\<rparr>)" for v
    by (simp add: wf_arg_def)
  have "wf_arg ((s_args script)[n := (s_args script ! n)\<lparr>a_value := SFA_id v\<rparr>] ! k)"
    if "k < length (s_args script)" for k v
  proof (cases "k = n")
    case True
    with that u [of v] show ?thesis by simp
  next
    case False
    with that assms(1) show ?thesis by (simp add: wf_script_def list_all_length)
  qed
  then show ?thesis
    by (simp add: wf_script_def bind_id_def set_arg_id_def list_all_length)
qed

lemma wf_extract_leading:
  assumes "wf_script script"
  shows "wf_script (fst (extract_leading script args))"
  using assms by (auto simp: extract_leading_def Let_def wf_bind_id)

lemma verbatim_tokens_single:
  assumes "wf_script script" "verbatim_texts_single script"
    "command_tokens script = Some ts"
  shows "list_all single_token ts"
proof -
  from command_tokens_wf [OF assms(1)] assms(3) have
    l: "length ts = n_args script"
    and t: "\<forall>i<n_args script. command_token (s_args script ! i) = Some (ts ! i)"
    by auto
  have "single_token (ts ! i)" if i: "i < length ts" for i
  proof -
    from i l have i': "i < length (s_args script)" by (simp add: n_args_def)
    with assms(1) have w: "wf_arg (s_args script ! i)"
      by (simp add: wf_script_def list_all_length)
    have "token_is_single (s_args script ! i)"
    proof (cases "inserted_verbatim (a_type (s_args script ! i))")
      case True
      with assms(2) i' show ?thesis
        by (auto simp: verbatim_texts_single_def list_all_length)
    next
      case False
      with w show ?thesis by (rule safe_token_single)
    qed
    with t i l show ?thesis by (simp add: token_is_single_def)
  qed
  then show ?thesis by (simp add: list_all_length)
qed

lemma two_token_value_command:
  "script_fu_script_get_command two_token_value_script = Some ''(f 1 2)''"
  by (simp add: get_command_eq command_tokens_def two_token_value_script_def
      script_with_args_def command_token_def call_text_def)

lemma two_token_value_tokens: "top_level_tokens ''(f 1 2)'' = Some [''f'', ''1'', ''2'']"
  by (simp add: top_level_tokens_def)

lemma test_blur_facts:
  "wf_script test_blur" "single_token (s_name test_blur)" "verbatim_texts_single test_blur"
  by (simp_all add: test_blur_def wf_script_def wf_arg_def single_token_def closed_text_def
      verbatim_texts_single_def)

lemma plain_name_scan:
  assumes "plain_name t"
  shows "foldl scan_step (d, InString) t = (d, InString)" and "free_of x (d, InString) t"
  using assms by (induction t) (auto simp: plain_name_def)

lemma quoted_plain_scan:
  assumes "plain_name t"
  shows "foldl scan_step (d, Plain) (quoted t) = (d, Plain)"
    and "free_of x (d, Plain) (quoted t) = (\<not> (d = 0 \<and> x = DQUOTE))"
  using plain_name_scan [OF assms]
  by (simp_all add: quoted_def free_of_append)

lemma single_token_quoted_plain: "plain_name t \<Longrightarrow> single_token (quoted t)"
  by (simp add: single_token_def closed_text_def quoted_plain_scan) (simp add: quoted_def)

lemma single_token_brush:
  assumes "plain_name (brush_name b)"
  shows "single_token (brush_list_token b)"
proof -
  define inner where
    "inner = '' '' @ g_ascii_dtostr (brush_opacity b) @ '' '' @ printf_d (brush_spacing b) @
       '' '' @ printf_d (brush_paint_mode b)"
  have t: "brush_list_token b = [CHR 0x27, CHR ''(''] @ quoted (brush_name b) @ inner @ '')''"
    by (simp add: brush_list_token_def inner_def)
  note o = number_chars_plain [OF conjunct1 [OF g_ascii_dtostr_number [of "brush_opacity b"]]]
  note s = number_chars_plain [OF conjunct1 [OF printf_d_number [of "brush_spacing b"]]]
  note m = number_chars_plain [OF conjunct1 [OF printf_d_number [of "brush_paint_mode b"]]]
  have "DQUOTE \<notin> set inner" "CHR ''('' \<notin> set inner" "CHR '')'' \<notin> set inner"
    using o s m by (simp_all add: inner_def)
  from plain_text_scan [OF this, of 1] have
    i: "foldl scan_step (Suc 0, Plain) inner = (Suc 0, Plain)"
    "\<And>x. free_of x (Suc 0, Plain) inner" by simp_all
  note q = quoted_plain_scan [OF assms, where d = "Suc 0"]
  show ?thesis
    unfolding t single_token_def closed_text_def
    by (simp add: free_of_append i q)
qed

lemma verbatim_token_single:
  assumes "wf_arg a" "verbatim_text_ok a" "inserted_verbatim (a_type a)"
  shows "token_is_single a"
proof -
  note b = single_token_brush [unfolded brush_list_token_def, simplified]
  show ?thesis
    using assms
    by (cases "a_type a"; cases "a_value a")
       (simp_all add: wf_arg_def verbatim_text_ok_def token_is_single_def command_token_def
          single_token_quoted_plain b)
qed

lemma verbatim_texts_ok_single:
  assumes "wf_script script" "verbatim_texts_ok script"
  shows "verbatim_texts_single script"
  using assms verbatim_token_single
  by (auto simp: wf_script_def verbatim_texts_ok_def verbatim_texts_single_def list_all_iff)

lemma safe_tokens_single:
  assumes "wf_script script" "command_tokens script = Some ts"
  shows "list_all2 (\<lambda>arg t. if inserted_verbatim (a_type arg) then True else single_token t)
           (s_args script) ts"
proof -
  from command_tokens_wf [OF assms(1)] assms(2) have
    l: "length ts = n_args script"
    and t: "\<forall>i<n_args script. command_token (s_args script ! i) = Some (ts ! i)"
    by auto
  have "if inserted_verbatim (a_type (s_args script ! i)) then True else single_token (ts ! i)"
    if i: "i < length (s_args script)" for i
  proof (cases "inserted_verbatim (a_type (s_args script ! i))")
    case True
    then show ?thesis by simp
  next
    case False
    from assms(1) i have "wf_arg (s_args script ! i)"
      by (simp add: wf_script_def list_all_length)
    from safe_token_single [OF this False] t i False show ?thesis
      by (simp add: token_is_single_def n_args_def)
  qed
  with l show ?thesis by (simp add: list_all2_conv_all_nth n_args_def)
qed

lemma quoted_font_three_tokens:
  "\<not> (\<exists>r toks. script_fu_script_get_command quoted_font_script = Some r \<and>
        top_level_tokens r = Some toks \<and> length toks = 1 + n_args quoted_font_script)"
proof -
  define rendered where
    "rendered = ''(f '' @ [DQUOTE] @ ''a'' @ [DQUOTE] @ '' '' @ [DQUOTE] @ ''b'' @ [DQUOTE] @ '')''"
  have r: "script_fu_script_get_command quoted_font_script = Some rendered"
    by (simp add: get_command_eq command_tokens_def quoted_font_script_def
        script_with_args_def command_token_def call_text_def quoted_def rendered_def)
  have t: "top_level_tokens rendered =
      Some [''f'', [DQUOTE] @ ''a'' @ [DQUOTE], [DQUOTE] @ ''b'' @ [DQUOTE]]"
    by (simp add: top_level_tokens_def rendered_def)
  have "n_args quoted_font_script = 1"
    by (simp add: n_args_def quoted_font_script_def script_with_args_def)
  with r t show ?thesis by simp
qed

lemma two_token_value_three_tokens:
  "\<not> (\<exists>r toks. script_fu_script_get_command two_token_value_script = Some r \<and>
        top_level_tokens r = Some toks \<and> length toks = 1 + n_args two_token_value_script)"
proof -
  have "n_args two_token_value_script = 1"
    by (simp add: n_args_def two_token_value_script_def script_with_args_def)
  then show ?thesis by (simp add: two_token_value_command two_token_value_tokens)
qed

lemma paint_script_facts:
  "wf_script paint_script" "single_token (s_name paint_script)" "verbatim_texts_ok paint_script"
  by (simp_all add: paint_script_def script_with_args_def brush_arg_def wf_script_def wf_arg_def
      single_token_def closed_text_def verbatim_texts_ok_def verbatim_text_ok_def
      plain_name_def)

lemma paint_script_command:
  "script_fu_script_get_command paint_script =
     Some (call_text ''script-fu-paint''
       [''(+ 1 2)'', quoted ''Sans Bold'',
        [CHR 0x27] @ ''('' @ quoted ''Circle'' @ '' 100 20 0)'', ''FALSE''])"
  by (simp add: get_command_eq command_tokens_def paint_script_def script_with_args_def
      brush_arg_def command_token_def dtostr_hundred printf_d_def string_of_nat.simps
      digit_char_def)

text \<open>
  C5, as the spec states it. The script named f with the single Value argument \<open>1 2\<close>
  is rendered as \<open>(f 1 2)\<close>, and the script named f with the single Font argument
  \<open>a" "b\<close> as \<open>(f "a" "b")\<close>: three top-level tokens each, not \<open>1 + n_args = 2\<close>, since
  the text of a Value is inserted as it is and a resource name is quoted but not escaped.
\<close>

theorem value_text_is_not_one_token:
  "\<not> (\<exists>r toks. script_fu_script_get_command two_token_value_script = Some r \<and>
        top_level_tokens r = Some toks \<and> length toks = 1 + n_args two_token_value_script) \<and>
   \<not> (\<exists>r toks. script_fu_script_get_command quoted_font_script = Some r \<and>
        top_level_tokens r = Some toks \<and> length toks = 1 + n_args quoted_font_script)"
  using two_token_value_three_tokens quoted_font_three_tokens by blast

text \<open>
  C5, as the code has it. For every script that keeps the invariant of the data model,
  \<open>script_fu_script_get_command\<close> returns the call text of the script name and one token
  per declared argument, \<open>n_args\<close> tokens in all, each after one space; so it does for the
  script that \<open>script_fu_script_collect_standard_args\<close> leaves, whatever it consumed.
  The token of every argument whose type is not inserted without escaping (identity,
  Color, Toggle, String, Text, Adjustment, Filename, Dirname, Option, Enum) is a single
  token. When the script name is a single token, the stored text of every Value argument
  is a single token, and no stored name of a Font, Palette, Pattern, Gradient or Brush
  argument holds a double quote or a backslash (\<open>verbatim_texts_ok\<close>), the result has
  exactly the \<open>1 + n_args\<close> top-level tokens script name and argument tokens and is a
  single closed call expression.
\<close>

theorem get_command_one_token_per_argument:
  assumes "wf_script script"
  shows "(\<exists>ts. command_tokens script = Some ts \<and> length ts = n_args script \<and>
            script_fu_script_get_command script = Some (call_text (s_name script) ts) \<and>
            list_all2 (\<lambda>arg t. if inserted_verbatim (a_type arg) then True else single_token t)
              (s_args script) ts \<and>
            (single_token (s_name script) \<and> verbatim_texts_ok script \<longrightarrow>
               top_level_tokens (call_text (s_name script) ts) = Some (s_name script # ts) \<and>
               length (s_name script # ts) = 1 + n_args script \<and>
               single_call_expression (call_text (s_name script) ts))) \<and>
         (\<exists>ts. command_tokens (fst (script_fu_script_collect_standard_args script args)) =
                 Some ts \<and>
               length ts = n_args script \<and>
               script_fu_script_get_command
                 (fst (script_fu_script_collect_standard_args script args)) =
                 Some (call_text (s_name script) ts))"
proof -
  from command_tokens_wf [OF assms] obtain ts where ts: "command_tokens script = Some ts"
    "length ts = n_args script" by blast
  note safe = safe_tokens_single [OF assms ts(1)]
  have "top_level_tokens (call_text (s_name script) ts) = Some (s_name script # ts) \<and>
      single_call_expression (call_text (s_name script) ts)"
    if "single_token (s_name script)" "verbatim_texts_ok script"
    using call_text_tokens [OF that(1) verbatim_tokens_single
        [OF assms verbatim_texts_ok_single [OF assms that(2)] ts(1)]]
    by simp
  with ts safe have first: "\<exists>ts. command_tokens script = Some ts \<and>
      length ts = n_args script \<and>
      script_fu_script_get_command script = Some (call_text (s_name script) ts) \<and>
      list_all2 (\<lambda>arg t. if inserted_verbatim (a_type arg) then True else single_token t)
        (s_args script) ts \<and>
      (single_token (s_name script) \<and> verbatim_texts_ok script \<longrightarrow>
         top_level_tokens (call_text (s_name script) ts) = Some (s_name script # ts) \<and>
         length (s_name script # ts) = 1 + n_args script \<and>
         single_call_expression (call_text (s_name script) ts))"
    by (auto simp: get_command_eq)
  let ?s = "fst (script_fu_script_collect_standard_args script args)"
  have w: "wf_script ?s"
    using wf_extract_leading [OF assms] by (simp add: collect_eq_extract_leading)
  from extract_leading_frame [of script args] have
    "?s\<lparr>s_args := s_args script\<rparr> = script" "length (s_args ?s) = length (s_args script)"
    by (simp_all add: collect_eq_extract_leading)
  then have nm: "s_name ?s = s_name script" "n_args ?s = n_args script"
    by (cases ?s; cases script; simp add: n_args_def)+
  from command_tokens_wf [OF w] nm have
    "\<exists>ts. command_tokens ?s = Some ts \<and> length ts = n_args script \<and>
       script_fu_script_get_command ?s = Some (call_text (s_name script) ts)"
    by (auto simp: get_command_eq)
  with first show ?thesis by blast
qed

theorem get_command_one_token_per_argument_witness:
  "wf_script paint_script \<and> single_token (s_name paint_script) \<and>
   verbatim_texts_ok paint_script \<and> n_args paint_script = 4 \<and>
   script_fu_script_get_command paint_script =
     Some (call_text ''script-fu-paint''
       [''(+ 1 2)'', quoted ''Sans Bold'',
        [CHR 0x27] @ ''('' @ quoted ''Circle'' @ '' 100 20 0)'', ''FALSE'']) \<and>
   (\<exists>r toks. script_fu_script_get_command paint_script = Some r \<and>
      top_level_tokens r = Some toks \<and> length toks = 5 \<and> single_call_expression r)"
proof -
  have n: "n_args paint_script = 4"
    by (simp add: n_args_def paint_script_def script_with_args_def)
  from get_command_one_token_per_argument [OF paint_script_facts(1), of "[]"]
    paint_script_facts(2,3) n
  have "\<exists>r toks. script_fu_script_get_command paint_script = Some r \<and>
      top_level_tokens r = Some toks \<and> length toks = 5 \<and> single_call_expression r"
    by auto
  with paint_script_facts n paint_script_command show ?thesis by blast
qed

section \<open>Names of the arguments of a script without a Display argument\<close>

text \<open>
  When the numbering of the enumerators is injective, every argument type of the script
  is numbered below \<open>SF_DISPLAY\<close> and the script has fewer than \<open>2 ^ 31\<close> arguments (its
  \<open>n_args\<close> is a \<open>gint\<close>), the counters stay inside the array and the builder names the
  arguments as the spec says.
\<close>

lemma add_script_arguments_specs:
  assumes "\<forall>a\<in>set (s_args script). num (a_type a) < length ac" "i \<le> length (s_args script)"
  shows "add_script_arguments num script i ac p =
           Inr (p\<lparr>proc_args := proc_args p @ numbered_specs num ac (drop i (s_args script))\<rparr>)"
  using assms
proof (induction num script i ac p rule: add_script_arguments.induct)
  case (1 num script i ac p)
  show ?case
  proof (cases "i < n_args script")
    case False
    with 1(3) have "i = length (s_args script)" by (simp add: n_args_def)
    with False show ?thesis by (simp add: add_script_arguments_end)
  next
    case True
    then have lt: "i < length (s_args script)" by (simp add: n_args_def)
    let ?a = "s_args script ! i"
    from lt 1(2) have inb: "num (a_type ?a) < length ac" by simp
    have d: "drop i (s_args script) = ?a # drop (Suc i) (s_args script)"
      using lt by (simp add: Cons_nth_drop_Suc)
    have "add_script_arguments num script (Suc i)
            (ac[num (a_type ?a) := ac ! num (a_type ?a) + 1])
            (gimp_procedure_add_argument p (argument_pspec (ac ! num (a_type ?a)) ?a)) =
          Inr ((gimp_procedure_add_argument p (argument_pspec (ac ! num (a_type ?a)) ?a))
            \<lparr>proc_args := proc_args (gimp_procedure_add_argument p
                 (argument_pspec (ac ! num (a_type ?a)) ?a)) @
               numbered_specs num (ac[num (a_type ?a) := ac ! num (a_type ?a) + 1])
                 (drop (Suc i) (s_args script))\<rparr>)"
      using 1(1) [OF True refl refl inb] 1(2) lt by simp
    then show ?thesis
      unfolding add_script_arguments_step [of i script num ac p, OF True inb] d
      by (simp add: gimp_procedure_add_argument_def)
  qed
qed

lemma numbered_specs_length [simp]: "length (numbered_specs num ac as) = length as"
  by (induction as arbitrary: ac) simp_all

lemma numbered_specs_nth:
  assumes "inj num" "\<forall>a\<in>set as. num (a_type a) < length ac" "j < length as"
  shows "numbered_specs num ac as ! j =
           argument_pspec (ac ! num (a_type (as ! j)) +
             int (count_list (map a_type (take j as)) (a_type (as ! j)))) (as ! j)"
  using assms(2,3)
proof (induction as arbitrary: ac j)
  case Nil
  then show ?case by simp
next
  case (Cons a as)
  show ?case
  proof (cases j)
    case 0
    then show ?thesis by simp
  next
    case (Suc k)
    let ?ac = "ac[num (a_type a) := ac ! num (a_type a) + 1]"
    from Cons.prems have r: "\<forall>b\<in>set as. num (a_type b) < length ?ac" and k: "k < length as"
      and a: "num (a_type a) < length ac" and b: "num (a_type (as ! k)) < length ac"
      using Suc by auto
    have e: "?ac ! num (a_type (as ! k)) =
        ac ! num (a_type (as ! k)) + (if a_type a = a_type (as ! k) then 1 else 0)"
      using a b assms(1) by (auto simp: nth_list_update inj_eq)
    show ?thesis
      using Cons.IH [OF r k] Suc e by (simp add: add.assoc)
  qed
qed


lemma string_of_nat_length: "n < 10 ^ Suc k \<Longrightarrow> length (string_of_nat n) \<le> Suc k"
proof (induction k arbitrary: n)
  case 0
  then show ?case by (subst string_of_nat.simps) simp
next
  case (Suc k)
  show ?case
  proof (cases "n < 10")
    case True
    then show ?thesis by (subst string_of_nat.simps) simp
  next
    case False
    from Suc.prems have "n div 10 < 10 ^ Suc k" by (simp add: less_mult_imp_div_less mult.commute)
    from Suc.IH [OF this] False show ?thesis by (subst string_of_nat.simps) simp
  qed
qed

lemma printf_d_length: "0 \<le> i \<Longrightarrow> i < 2 ^ 31 \<Longrightarrow> length (printf_d i) \<le> 10"
proof -
  assume "0 \<le> i" "i < 2 ^ 31"
  then have "nat i < 10 ^ Suc 9" by simp
  from string_of_nat_length [OF this] \<open>0 \<le> i\<close> show ?thesis by (simp add: printf_d_def)
qed

lemma name_nick_length:
  "length (fst (pdb_name_nick t)) \<le> 10" "length (snd (pdb_name_nick t)) \<le> 10"
  by (cases t; simp)+

lemma numbered_name_family:
  assumes "0 \<le> c" "c + 1 < 2 ^ 31"
  shows "numbered_name c (fst (pdb_name_nick t)) = family_name t (nat c + 1)"
    and "numbered_nick c (snd (pdb_name_nick t)) = family_nick t (nat c + 1)"
proof -
  from assms have l: "length (printf_d (c + 1)) \<le> 10" by (intro printf_d_length) simp_all
  from assms have i: "int (Suc (nat c)) = c + 1" by simp
  show "numbered_name c (fst (pdb_name_nick t)) = family_name t (nat c + 1)"
    using l name_nick_length(1) [of t] assms(1)
    by (simp add: numbered_name_def family_name_def g_strlcpy_def g_snprintf_def i del: of_nat_Suc)
  show "numbered_nick c (snd (pdb_name_nick t)) = family_nick t (nat c + 1)"
    using l name_nick_length(2) [of t] assms(1)
    by (simp add: numbered_nick_def family_nick_def g_strlcpy_def g_snprintf_def i del: of_nat_Suc)
qed


lemma occurrence_eq:
  assumes "i < length as"
  shows "occurrence as i = Suc (count_list (map a_type (take i as)) (a_type (as ! i)))"
  using assms by (simp add: occurrence_def take_Suc_conv_app_nth)

lemma count_list_le_length: "count_list xs x \<le> length xs"
  by (induction xs) auto

lemma builder_names:
  assumes "inj num" "\<forall>a\<in>set (s_args script). num (a_type a) < num SF_DISPLAY"
    "length (s_args script) < 2 ^ 31"
  shows "\<exists>p. script_fu_script_create_PDB_procedure num script plug_in_type = Inr p \<and>
           length (proc_args p) = Suc (n_args script) \<and>
           ps_name (proc_args p ! 0) = ''run-mode'' \<and>
           (\<forall>i<n_args script.
              ps_name (proc_args p ! Suc i) =
                family_name (a_type (s_args script ! i)) (occurrence (s_args script) i) \<and>
              ps_nick (proc_args p ! Suc i) =
                family_nick (a_type (s_args script ! i)) (occurrence (s_args script) i) \<and>
              ps_blurb (proc_args p ! Suc i) = a_label (s_args script ! i))"
proof -
  let ?ac = "replicate (num SF_DISPLAY) (0::int)"
  define p0 where "p0 =
    gimp_procedure_add_argument
      ((gimp_procedure_new (s_name script) plug_in_type)
         \<lparr>proc_image_types := s_image_types script,
          proc_menu_label :=
            (if take 6 (s_menu_label script) = ''<None>'' then None
             else if s_menu_label script \<noteq> [] then Some (s_menu_label script) else None),
          proc_blurb := s_blurb script, proc_help_id := s_name script,
          proc_authors := s_author script, proc_copyright := s_copyright script,
          proc_date := s_date script\<rparr>)
      \<lparr>ps_name = ''run-mode'', ps_nick = ''Run mode'', ps_blurb = ''The run mode'',
       ps_type = PT_run_mode\<rparr>"
  have c: "script_fu_script_create_PDB_procedure num script plug_in_type =
      add_script_arguments num script 0 ?ac p0"
    by (simp add: script_fu_script_create_PDB_procedure_def p0_def strncmp_None_sentinel
        gimp_procedure_new_def gimp_procedure_add_argument_def Let_def)
  have r: "\<forall>a\<in>set (s_args script). num (a_type a) < length ?ac"
    using assms(2) by simp
  let ?specs = "numbered_specs num ?ac (s_args script)"
  let ?p = "p0\<lparr>proc_args := proc_args p0 @ ?specs\<rparr>"
  have e: "script_fu_script_create_PDB_procedure num script plug_in_type = Inr ?p"
    unfolding c using add_script_arguments_specs [OF r, of 0 p0] by simp
  have a0: "proc_args p0 = [\<lparr>ps_name = ''run-mode'', ps_nick = ''Run mode'',
      ps_blurb = ''The run mode'', ps_type = PT_run_mode\<rparr>]"
    by (simp add: p0_def gimp_procedure_add_argument_def gimp_procedure_new_def)
  have n: "ps_name (?specs ! i) =
        family_name (a_type (s_args script ! i)) (occurrence (s_args script) i) \<and>
      ps_nick (?specs ! i) =
        family_nick (a_type (s_args script ! i)) (occurrence (s_args script) i) \<and>
      ps_blurb (?specs ! i) = a_label (s_args script ! i)"
    if i: "i < n_args script" for i
  proof -
    from i have i': "i < length (s_args script)" by (simp add: n_args_def)
    let ?t = "a_type (s_args script ! i)"
    let ?k = "count_list (map a_type (take i (s_args script))) ?t"
    from i' assms(2) have "num ?t < num SF_DISPLAY" by simp
    then have z: "?ac ! num ?t = 0" by simp
    have s: "?specs ! i = argument_pspec (int ?k) (s_args script ! i)"
      using numbered_specs_nth [OF assms(1) r i'] z by simp
    have "?k \<le> i" using count_list_le_length [of "map a_type (take i (s_args script))" ?t] i'
      by simp
    with i' assms(3) have b: "int ?k + 1 < 2 ^ 31" by simp
    have o: "occurrence (s_args script) i = nat (int ?k) + 1"
      using occurrence_eq [OF i'] by simp
    show ?thesis
      unfolding s o
      using numbered_name_family [OF _ b, of ?t]
      by (simp add: argument_pspec_def)
  qed
  have "length (proc_args ?p) = Suc (n_args script)"
    by (simp add: a0 n_args_def)
  moreover have "ps_name (proc_args ?p ! 0) = ''run-mode''" by (simp add: a0)
  moreover have "proc_args ?p ! Suc i = ?specs ! i" for i by (simp add: a0)
  ultimately show ?thesis using e n by simp
qed

lemma digit_char_code: "k < 10 \<Longrightarrow> (of_char (digit_char k) :: nat) = 48 + k"
proof -
  assume "k < 10"
  then have "k = 0 \<or> k = 1 \<or> k = 2 \<or> k = 3 \<or> k = 4 \<or> k = 5 \<or> k = 6 \<or> k = 7 \<or> k = 8 \<or> k = 9"
    by arith
  then show ?thesis by (auto simp: digit_char_def)
qed

lemma string_of_nat_value:
  "foldl (\<lambda>a c. 10 * a + (of_char c - 48)) 0 (string_of_nat n) = n"
proof (induction n rule: string_of_nat.induct)
  case (1 n)
  show ?case
  proof (cases "n < 10")
    case True
    then have "string_of_nat n = [digit_char n]" by (subst string_of_nat.simps) simp
    with digit_char_code [OF True] show ?thesis by simp
  next
    case False
    then have e: "string_of_nat n = string_of_nat (n div 10) @ [digit_char (n mod 10)]"
      by (subst string_of_nat.simps) simp
    have "n mod 10 < 10" by simp
    from digit_char_code [OF this] 1 [OF False] show ?thesis unfolding e by simp
  qed
qed

lemma string_of_nat_inj:
  assumes "string_of_nat m = string_of_nat n"
  shows "m = n"
proof -
  have "m = foldl (\<lambda>a c. 10 * a + (of_char c - 48)) 0 (string_of_nat m)"
    by (simp only: string_of_nat_value)
  also have "\<dots> = foldl (\<lambda>a c. 10 * a + (of_char c - 48)) 0 (string_of_nat n)"
    by (simp only: assms)
  also have "\<dots> = n" by (simp only: string_of_nat_value)
  finally show ?thesis .
qed

lemma printf_d_nat_inj: "printf_d (int m) = printf_d (int n) \<Longrightarrow> m = n"
  by (simp add: printf_d_def string_of_nat_inj)


lemma base_name_no_dash: "CHR ''-'' \<notin> set (fst (pdb_name_nick t))"
  by (cases t) simp_all

lemma base_name_not_run: "fst (pdb_name_nick t) \<noteq> ''run''"
  by (cases t) simp_all

lemma base_name_inj: "fst (pdb_name_nick t) = fst (pdb_name_nick t') \<Longrightarrow> t = t'"
  by (cases t; cases t'; simp)

lemma family_name_base:
  "takeWhile (\<lambda>c. c \<noteq> CHR ''-'') (family_name t k) = fst (pdb_name_nick t)"
proof -
  have "\<forall>c\<in>set (fst (pdb_name_nick t)). c \<noteq> CHR ''-''"
    using base_name_no_dash [of t] by blast
  then have a: "takeWhile (\<lambda>c. c \<noteq> CHR ''-'') (fst (pdb_name_nick t)) = fst (pdb_name_nick t)"
    by (simp only: takeWhile_eq_all_conv)
  have b: "takeWhile (\<lambda>c. c \<noteq> CHR ''-'') (fst (pdb_name_nick t) @ CHR ''-'' # r) =
      takeWhile (\<lambda>c. c \<noteq> CHR ''-'') (fst (pdb_name_nick t))" for r
    by (rule takeWhile_tail) simp
  show ?thesis
  proof (cases "k = 1")
    case True
    with a show ?thesis by (simp add: family_name_def)
  next
    case False
    then have "family_name t k = fst (pdb_name_nick t) @ CHR ''-'' # printf_d (int k)"
      by (simp add: family_name_def)
    with a b show ?thesis by simp
  qed
qed

lemma family_name_inj:
  assumes "family_name t k = family_name t' k'"
  shows "t = t'" and "k = 1 \<longleftrightarrow> k' = 1" and "k \<noteq> 1 \<Longrightarrow> k = k'"
proof -
  from assms family_name_base [of t k] family_name_base [of t' k'] show t: "t = t'"
    by (simp add: base_name_inj)
  let ?b = "fst (pdb_name_nick t)"
  have l: "length (family_name t j) = length ?b \<longleftrightarrow> j = 1" for j
    by (simp add: family_name_def)
  from assms t have "length (family_name t k) = length (family_name t k')" by simp
  with l [of k] l [of k'] show o: "k = 1 \<longleftrightarrow> k' = 1"
    by (cases "k = 1"; cases "k' = 1"; simp add: family_name_def)
  show "k = k'" if "k \<noteq> 1"
  proof -
    from that o have "k' \<noteq> 1" by simp
    with that assms t have "printf_d (int k) = printf_d (int k')"
      by (simp add: family_name_def)
    then show ?thesis by (rule printf_d_nat_inj)
  qed
qed

lemma family_name_not_run_mode: "family_name t k \<noteq> ''run-mode''"
proof
  assume "family_name t k = ''run-mode''"
  then have "takeWhile (\<lambda>c. c \<noteq> CHR ''-'') (family_name t k) = ''run''" by simp
  with family_name_base [of t k] base_name_not_run [of t] show False by simp
qed

lemma count_list_take_mono:
  "m \<le> n \<Longrightarrow> count_list (take m xs) x \<le> count_list (take n xs) x"
proof -
  assume "m \<le> n"
  then have "take n xs = take m xs @ take (n - m) (drop m xs)"
    by (metis le_add_diff_inverse take_add)
  then show ?thesis by simp
qed

lemma occurrence_mono:
  assumes "i < j" "j < length as" "a_type (as ! i) = a_type (as ! j)"
  shows "occurrence as i < occurrence as j"
proof -
  from assms have i: "i < length as" by simp
  have "count_list (take (Suc i) (map a_type as)) (a_type (as ! j)) \<le>
      count_list (take j (map a_type as)) (a_type (as ! j))"
    using assms(1) by (intro count_list_take_mono) simp
  then show ?thesis
    using occurrence_eq [OF assms(2)] assms(3) by (simp add: occurrence_def take_map)
qed

lemma family_names_distinct:
  assumes "i < length as" "j < length as" "i \<noteq> j"
  shows "family_name (a_type (as ! i)) (occurrence as i) \<noteq>
         family_name (a_type (as ! j)) (occurrence as j)"
proof
  assume e: "family_name (a_type (as ! i)) (occurrence as i) =
      family_name (a_type (as ! j)) (occurrence as j)"
  note f = family_name_inj [OF e]
  from f(2,3) have "occurrence as i = occurrence as j" by auto
  moreover have "occurrence as i \<noteq> occurrence as j"
  proof (cases "i < j")
    case True
    from occurrence_mono [OF True assms(2) f(1)] show ?thesis by simp
  next
    case False
    with assms(3) have "j < i" by simp
    from occurrence_mono [OF this assms(1) f(1) [symmetric]] show ?thesis by simp
  qed
  ultimately show False by simp
qed

lemma builder_names_distinct:
  assumes "inj num" "\<forall>a\<in>set (s_args script). num (a_type a) < num SF_DISPLAY"
    "length (s_args script) < 2 ^ 31"
  shows "\<exists>p. script_fu_script_create_PDB_procedure num script plug_in_type = Inr p \<and>
           distinct (map ps_name (proc_args p))"
proof -
  from builder_names [OF assms, of plug_in_type] obtain p where
    p: "script_fu_script_create_PDB_procedure num script plug_in_type = Inr p"
    and l: "length (proc_args p) = Suc (n_args script)"
    and r: "ps_name (proc_args p ! 0) = ''run-mode''"
    and n: "\<forall>i<n_args script. ps_name (proc_args p ! Suc i) =
        family_name (a_type (s_args script ! i)) (occurrence (s_args script) i)"
    by blast
  have "map ps_name (proc_args p) ! a \<noteq> map ps_name (proc_args p) ! b"
    if ab: "a < length (proc_args p)" "b < length (proc_args p)" "a \<noteq> b" for a b
  proof (cases a)
    case 0
    with ab obtain b' where b': "b = Suc b'" by (cases b) auto
    with ab l have "b' < n_args script" by simp
    with n b' r 0 ab family_name_not_run_mode
      [of "a_type (s_args script ! b')" "occurrence (s_args script) b'"]
    show ?thesis by simp
  next
    case (Suc a')
    with ab l have a': "a' < n_args script" by simp
    show ?thesis
    proof (cases b)
      case 0
      with n a' r Suc ab family_name_not_run_mode
        [of "a_type (s_args script ! a')" "occurrence (s_args script) a'"]
      show ?thesis by simp
    next
      case b: (Suc b')
      with ab l have b': "b' < n_args script" by simp
      from Suc b ab have "a' \<noteq> b'" by simp
      with family_names_distinct [of a' "s_args script" b'] a' b'
      have "family_name (a_type (s_args script ! a')) (occurrence (s_args script) a') \<noteq>
          family_name (a_type (s_args script ! b')) (occurrence (s_args script) b')"
        by (simp add: n_args_def)
      with n a' b' Suc b ab show ?thesis by simp
    qed
  qed
  then have "distinct (map ps_name (proc_args p))"
    by (simp add: distinct_conv_nth)
  with p show ?thesis by blast
qed

end
